theory Spec2Isabelle
  imports Main "HOL-Library.List_Lexorder" "HOL-Library.Char_ord"
begin

section \<open>Values: Go's \<open>map[string]interface{}\<close>\<close>

text \<open>
  The secrets handled by the printer and by the import command are Go values of type
  \<open>map[string]interface{}\<close>, as decoded from JSON or YAML. A Go map has unique keys and no
  iteration order of its own: every \<open>range\<close> over it visits the entries in an order the runtime
  picks. A map is modelled as an association list whose order is the order in which \<open>range\<close>
  visits the entries in this run; lookups go through \<open>map_of\<close>, and \<open>wfVal\<close> says that keys are
  unique at every level. Two lists with the same canonical form (\<open>canon\<close>) are the same Go map.
  Numbers are integers here; floating-point values are left out.
\<close>

datatype val =
    VNil
  | VBool bool
  | VInt int
  | VStr string
  | VList "val list"
  | VMap "(string \<times> val) list"

type_synonym gomap = "(string \<times> val) list"

fun isMap :: "val \<Rightarrow> bool" where
  "isMap (VMap m) = True"
| "isMap v = False"

fun wfVal :: "val \<Rightarrow> bool" where
  "wfVal (VList xs) = (\<forall>x \<in> set xs. wfVal x)"
| "wfVal (VMap m) = (distinct (map fst m) \<and> (\<forall>kv \<in> set m. wfVal (snd kv)))"
| "wfVal v = True"

definition wfMap :: "gomap \<Rightarrow> bool" where
  "wfMap m = wfVal (VMap m)"

fun canon :: "val \<Rightarrow> val" where
  "canon (VList xs) = VList (map canon xs)"
| "canon (VMap m) = VMap (sort_key fst (map (\<lambda>kv. (fst kv, canon (snd kv))) m))"
| "canon v = v"

definition sameMap :: "gomap \<Rightarrow> gomap \<Rightarrow> bool" where
  "sameMap a b = (canon (VMap a) = canon (VMap b))"

definition newline :: string where
  "newline = [CHR 0x0A]"

definition tab :: string where
  "tab = [CHR 0x09]"

subsection \<open>The standard library as the code uses it\<close>

datatype panic = NegativeRepeatCount | InterfaceConversion

datatype err = Err string

datatype 'a outcome = Panic panic | Error err | Ok 'a

text \<open>\<open>strings.Repeat(s, count)\<close> panics on a negative count.\<close>

definition Repeat :: "string \<Rightarrow> int \<Rightarrow> panic + string" where
  "Repeat s count =
     (if count < 0 then Inl NegativeRepeatCount else Inr (concat (replicate (nat count) s)))"

text \<open>\<open>strings.TrimPrefix\<close>.\<close>

definition TrimPrefix :: "string \<Rightarrow> string \<Rightarrow> string" where
  "TrimPrefix s pre = (if take (length pre) s = pre then drop (length pre) s else s)"

text \<open>
  \<open>strings.Split(s, sep)\<close>: the substrings between the occurrences of \<open>sep\<close>, scanning from the
  left. With an empty separator Go gives one string per UTF-8 sequence, which on ASCII is
  one per byte, as here; the command only splits at \<open>Delimiter\<close>.
\<close>

fun splitAux :: "string \<Rightarrow> string \<Rightarrow> string \<Rightarrow> string list" where
  "splitAux sep cur [] = [rev cur]"
| "splitAux sep cur (c # cs) =
     (if sep \<noteq> [] \<and> take (length sep) (c # cs) = sep
      then rev cur # splitAux sep [] (drop (length sep - 1) cs)
      else splitAux sep (c # cur) cs)"

definition Split :: "string \<Rightarrow> string \<Rightarrow> string list" where
  "Split s sep = (if sep = [] then map (\<lambda>c. [c]) s else splitAux sep [] s)"

text \<open>
  \<open>fmt\<close>'s \<open>%v\<close> verb on the values above: strings as they are, integers in decimal, \<open>nil\<close> as
  \<open><nil>\<close>, a slice as \<open>[a b]\<close>, a map as \<open>map[k:v k:v]\<close> with its keys sorted. The functions of
  the printer take the formatter as a parameter (\<open>fmt_Sprintv\<close> below), so what is proved of
  them holds for every formatter; \<open>sprintv\<close> is the one used to run them.
\<close>

fun natToDec :: "nat \<Rightarrow> string" where
  "natToDec n =
     (if n < 10 then [''0123456789'' ! n] else natToDec (n div 10) @ [''0123456789'' ! (n mod 10)])"

declare natToDec.simps [simp del]

fun joinWith :: "string \<Rightarrow> string list \<Rightarrow> string" where
  "joinWith sep [] = []"
| "joinWith sep [x] = x"
| "joinWith sep (x # y # ys) = x @ sep @ joinWith sep (y # ys)"

fun sprintv :: "val \<Rightarrow> string" where
  "sprintv VNil = ''<nil>''"
| "sprintv (VBool b) = (if b then ''true'' else ''false'')"
| "sprintv (VInt i) = (if i < 0 then ''-'' @ natToDec (nat (- i)) else natToDec (nat i))"
| "sprintv (VStr s) = s"
| "sprintv (VList xs) = ''['' @ joinWith '' '' (map sprintv xs) @ '']''"
| "sprintv (VMap m) =
     ''map['' @ joinWith '' ''
        (map snd (sort_key fst (map (\<lambda>kv. (fst kv, fst kv @ '':'' @ sprintv (snd kv))) m))) @ '']''"

text \<open>
  What the printer calls outside its own file: \<open>fmt\<close>'s \<open>%v\<close>, and the serialisers
  \<open>utils.ToYAML\<close> and \<open>utils.ToJSON\<close>, which return the bytes or an error.
\<close>

record externals =
  fmt_Sprintv :: "val \<Rightarrow> string"
  utils_ToYAML :: "gomap \<Rightarrow> err + string"
  utils_ToJSON :: "gomap \<Rightarrow> err + string"

text \<open>
  Modelled from the spec: \<open>utils.SortMapKeys\<close> is not part of the sources at hand; the spec has
  the renderer sort "top-level and nested keys lexicographically", so it returns the keys of
  the map in ascending byte-wise order.
\<close>

definition SortMapKeys :: "gomap \<Rightarrow> string list" where
  "SortMapKeys m = sort (map fst m)"

text \<open>Indexing a Go map: \<open>m[k]\<close> is \<open>nil\<close> for a key that is not there.\<close>

definition index :: "gomap \<Rightarrow> string \<Rightarrow> val" where
  "index m k = (case map_of m k of None \<Rightarrow> VNil | Some v \<Rightarrow> v)"

section \<open>The printer\<close>

text \<open>
  The constants of the printer are declared in one \<open>const\<close> block: \<open>maskChar\<close> is its entry 0,
  \<open>MaxValueLength\<close> its entry 1, and \<open>yaml outputFormat = iota\<close> is entry 2, so \<open>yaml = 2\<close>,
  \<open>json = 3\<close>, \<open>export = 4\<close>. A printer whose format no option sets has format 0, which is none
  of them: \<open>Out\<close> takes its \<open>default\<close> branch. \<open>valueLength\<close> is a Go \<open>int\<close>; it is only compared with
  lengths and passed to \<open>strings.Repeat\<close>, so it is an integer here.
\<close>

type_synonym outputFormat = int

definition maskChar :: string where
  "maskChar = ''*''"

definition MaxValueLength :: int where
  "MaxValueLength = 12"

definition yaml :: outputFormat where
  "yaml = 2"

definition json :: outputFormat where
  "json = 3"

definition export :: outputFormat where
  "export = 4"

datatype writer = Stdout | Sink nat

definition defaultWriter :: writer where
  "defaultWriter = Stdout"

record Printer =
  secrets :: gomap
  format :: outputFormat
  writer :: writer
  onlyKeys :: bool
  onlyPaths :: bool
  showSecrets :: bool
  valueLength :: int

text \<open>
  \<open>printOnlykeys\<close>: every value of every top-level map becomes the empty string; a top-level
  value that is not a map is skipped.
\<close>

definition printOnlykeys :: "Printer \<Rightarrow> Printer" where
  "printOnlykeys p =
     p\<lparr>secrets := map (\<lambda>kv. (fst kv,
          (case snd kv of
             VMap m \<Rightarrow> VMap (map (\<lambda>jx. (fst jx, VStr [])) m)
           | v \<Rightarrow> v))) (secrets p)\<rparr>"

text \<open>\<open>printOnlyPaths\<close>: every top-level value becomes \<open>nil\<close>.\<close>

definition printOnlyPaths :: "Printer \<Rightarrow> Printer" where
  "printOnlyPaths p = p\<lparr>secrets := map (\<lambda>kv. (fst kv, VNil)) (secrets p)\<rparr>"

text \<open>
  The body of the inner loop of \<open>maskSecrets\<close>: the value is formatted with \<open>%v\<close> and replaced
  by \<open>valueLength\<close> mask characters when it is longer than that, by as many as its length
  otherwise.
\<close>

definition maskValue :: "externals \<Rightarrow> int \<Rightarrow> val \<Rightarrow> panic + val" where
  "maskValue ext n v =
     (let secret = fmt_Sprintv ext v in
      if int (length secret) > n
      then (case Repeat maskChar n of Inl e \<Rightarrow> Inl e | Inr s \<Rightarrow> Inr (VStr s))
      else (case Repeat maskChar (int (length secret)) of Inl e \<Rightarrow> Inl e | Inr s \<Rightarrow> Inr (VStr s)))"

fun maskLeaf :: "externals \<Rightarrow> int \<Rightarrow> gomap \<Rightarrow> panic + gomap" where
  "maskLeaf ext n [] = Inr []"
| "maskLeaf ext n (kv # m) =
     (case maskValue ext n (snd kv) of
        Inl e \<Rightarrow> Inl e
      | Inr v \<Rightarrow> (case maskLeaf ext n m of Inl e \<Rightarrow> Inl e | Inr m' \<Rightarrow> Inr ((fst kv, v) # m')))"

fun maskPaths :: "externals \<Rightarrow> int \<Rightarrow> gomap \<Rightarrow> panic + gomap" where
  "maskPaths ext n [] = Inr []"
| "maskPaths ext n (kv # s) =
     (case snd kv of
        VMap m \<Rightarrow>
          (case maskLeaf ext n m of
             Inl e \<Rightarrow> Inl e
           | Inr m' \<Rightarrow>
               (case maskPaths ext n s of Inl e \<Rightarrow> Inl e | Inr s' \<Rightarrow> Inr ((fst kv, VMap m') # s')))
      | v \<Rightarrow> (case maskPaths ext n s of Inl e \<Rightarrow> Inl e | Inr s' \<Rightarrow> Inr ((fst kv, v) # s')))"

definition maskSecrets :: "externals \<Rightarrow> Printer \<Rightarrow> panic + Printer" where
  "maskSecrets ext p =
     (case maskPaths ext (valueLength p) (secrets p) of
        Inl e \<Rightarrow> Inl e
      | Inr s \<Rightarrow> Inr (p\<lparr>secrets := s\<rparr>))"

subsection \<open>Options\<close>

datatype Option =
    CustomValueLength int
  | OnlyKeys bool
  | OnlyPaths bool
  | ToYAML bool
  | ToJSON bool
  | ToExportFormat bool
  | WithWriter writer
  | ShowSecrets bool

fun applyOption :: "Option \<Rightarrow> Printer \<Rightarrow> Printer" where
  "applyOption (CustomValueLength n) p = p\<lparr>valueLength := n\<rparr>"
| "applyOption (OnlyKeys b) p = (if b then printOnlykeys (p\<lparr>onlyKeys := True\<rparr>) else p)"
| "applyOption (OnlyPaths b) p = (if b then printOnlyPaths (p\<lparr>onlyPaths := True\<rparr>) else p)"
| "applyOption (ToYAML b) p = (if b then p\<lparr>format := yaml\<rparr> else p)"
| "applyOption (ToJSON b) p = (if b then p\<lparr>format := json\<rparr> else p)"
| "applyOption (ToExportFormat b) p = p\<lparr>format := export, showSecrets := True\<rparr>"
| "applyOption (WithWriter w) p = p\<lparr>writer := w\<rparr>"
| "applyOption (ShowSecrets b) p = p\<lparr>showSecrets := b\<rparr>"

definition initPrinter :: "gomap \<Rightarrow> Printer" where
  "initPrinter m =
     \<lparr>secrets = m, format = 0, writer = defaultWriter, onlyKeys = False, onlyPaths = False,
      showSecrets = False, valueLength = MaxValueLength\<rparr>"

definition applyOptions :: "Option list \<Rightarrow> Printer \<Rightarrow> Printer" where
  "applyOptions opts p = foldl (\<lambda>q opt. applyOption opt q) p opts"

definition NewPrinter :: "externals \<Rightarrow> gomap \<Rightarrow> Option list \<Rightarrow> panic + Printer" where
  "NewPrinter ext m opts =
     (let p = applyOptions opts (initPrinter m) in
      if \<not> showSecrets p then maskSecrets ext p else Inr p)"

subsection \<open>Output\<close>

text \<open>
  \<open>Out\<close> returns what it has written to the printer's writer, or the error of the serialiser,
  or it panics; what it wrote before a panic is not kept. \<open>printSecrets\<close> writes the keys of
  one path in sorted order.
\<close>

definition printSecrets :: "externals \<Rightarrow> Printer \<Rightarrow> val \<Rightarrow> string" where
  "printSecrets ext p s =
     (case s of
        VMap m \<Rightarrow>
          concat (map (\<lambda>k.
            (if onlyKeys p then tab @ k @ newline else [])
            @ (if \<not> onlyKeys p \<and> \<not> onlyPaths p
               then tab @ k @ ''='' @ fmt_Sprintv ext (index m k) @ newline else []))
            (SortMapKeys m))
      | v \<Rightarrow> [])"

text \<open>
  The \<open>export\<close> branch: the paths in sorted order; the value of each is asserted to be a map
  (\<open>p.secrets[s].(map[string]interface{})\<close> panics on anything else), and \<open>range\<close> visits its
  entries in the order of the run.
\<close>

definition exportLine :: "externals \<Rightarrow> string \<times> val \<Rightarrow> string" where
  "exportLine ext kv = ''export '' @ fst kv @ ''='' @ fmt_Sprintv ext (snd kv) @ newline"

fun exportPaths :: "externals \<Rightarrow> gomap \<Rightarrow> string list \<Rightarrow> string outcome" where
  "exportPaths ext secs [] = Ok []"
| "exportPaths ext secs (s # ss) =
     (case index secs s of
        VMap m \<Rightarrow>
          (case exportPaths ext secs ss of
             Ok rest \<Rightarrow> Ok (concat (map (exportLine ext) m) @ rest)
           | other \<Rightarrow> other)
      | v \<Rightarrow> Panic InterfaceConversion)"

definition Out :: "externals \<Rightarrow> Printer \<Rightarrow> string outcome" where
  "Out ext p =
     (if format p = yaml then
        (case utils_ToYAML ext (secrets p) of Inl e \<Rightarrow> Error e | Inr out \<Rightarrow> Ok out)
      else if format p = json then
        (case utils_ToJSON ext (secrets p) of Inl e \<Rightarrow> Error e | Inr out \<Rightarrow> Ok out)
      else if format p = export then
        exportPaths ext (secrets p) (SortMapKeys (secrets p))
      else
        Ok (concat (map (\<lambda>k. k @ newline @ printSecrets ext p (index (secrets p) k))
              (SortMapKeys (secrets p)))))"

text \<open>The entries of a value that is a map; no entries for anything else.\<close>

fun entries :: "val \<Rightarrow> gomap" where
  "entries (VMap m) = m"
| "entries v = []"

text \<open>
  The externals used to run the printer on concrete inputs. The runs below use the default
  and the export format only, which call neither serialiser; both are set to fail.
\<close>

definition runExt :: externals where
  "runExt =
     \<lparr>fmt_Sprintv = sprintv,
      utils_ToYAML = (\<lambda>m. Inl (Err ''no serialiser'')),
      utils_ToJSON = (\<lambda>m. Inl (Err ''no serialiser''))\<rparr>"

text \<open>Rendering a map with a list of options: the printer is made, then \<open>Out\<close> is called.\<close>

definition render :: "externals \<Rightarrow> gomap \<Rightarrow> Option list \<Rightarrow> string outcome" where
  "render ext m opts = (case NewPrinter ext m opts of Inl e \<Rightarrow> Panic e | Inr p \<Rightarrow> Out ext p)"

text \<open>Every top-level value is \<open>nil\<close>: what \<open>printOnlyPaths\<close> leaves.\<close>

definition allNil :: "gomap \<Rightarrow> bool" where
  "allNil m = (\<forall>kv \<in> set m. snd kv = VNil)"

section \<open>The import command\<close>

record importOptions =
  EnginePath :: string
  Path :: string
  File :: string
  Force :: bool
  DryRun :: bool
  Silent :: bool
  ShowValues :: bool
  MaxValueLengthOpt :: int

text \<open>
  Modelled from the spec: \<open>utils.Delimiter\<close> is not part of the sources at hand; the spec has
  paths "slash-delimited".
\<close>

definition Delimiter :: string where
  "Delimiter = ''/''"

definition dq :: string where
  "dq = [CHR 0x22]"

text \<open>
  What the command does besides computing: lines on standard output (\<open>fmt.Println\<close>,
  \<open>fmt.Printf\<close>), lines on the package's writer (\<open>fmt.Fprintln(writer, ...)\<close>), the construction
  of the secret printer with its options, and the calls of the backend client and of the
  printer's \<open>Out\<close>. A run is the list of these events in the order they happen.
\<close>

text \<open>
  What the command does besides computing: lines on standard output (\<open>fmt.Println\<close>,
  \<open>fmt.Printf\<close>), lines on the package's writer (\<open>fmt.Fprintln(writer, ...)\<close>), and the calls
  of the backend client and of the secret printer's \<open>Out\<close>. A run is the list of these events
  in the order they happen. The package's \<open>printer\<close> variable holds the secret printer, which
  is known here by the options it was made with.
\<close>

datatype secretOption =
    prt_CustomValueLength int
  | prt_ShowValues bool
  | prt_ToFormatBase
  | prt_WithVaultClient
  | prt_WithWriter
  | prt_ShowVersion bool
  | prt_ShowMetadata bool
  | prt_WithEnginePath string

datatype event =
    PrintStdout string
  | PrintWriter string
  | CallListRecursive string string bool
  | CallEnableKV2Engine bool string
  | CallWriteSecrets string string gomap
  | CallPrinterOut "secretOption list" gomap

fun isWrite :: "event \<Rightarrow> bool" where
  "isWrite (CallEnableKV2Engine f r) = True"
| "isWrite (CallWriteSecrets r s m) = True"
| "isWrite e = False"

datatype status = Done | Failed err | Fatal

text \<open>
  The functions of package \<open>utils\<close>, \<open>path.Join\<close>, \<open>fmt.Sprint\<close>, the backend client and the
  secret printer are not in the file of the command; it is modelled for any of them.
  \<open>'b\<close> is the state of the backend: listing reads it, enabling an engine and writing a secret
  return the new one with their error. The secret printer holds the client; its \<open>Out\<close> is
  taken to read only. \<open>GetRootElement\<close> returns a string and an error, as in Go.
\<close>

record 'b collaborators =
  GetRootElement :: "gomap \<Rightarrow> string \<times> err option"
  HandleEnginePath :: "string \<Rightarrow> string \<Rightarrow> string \<times> string"
  NormalizePath :: "string \<Rightarrow> string"
  path_Join :: "string list \<Rightarrow> string"
  ToMapStringInterface :: "val \<Rightarrow> gomap"
  UnflattenMap :: "string \<Rightarrow> gomap \<Rightarrow> string \<Rightarrow> gomap"
  FlattenMap :: "gomap \<Rightarrow> gomap \<Rightarrow> string \<Rightarrow> gomap"
  DeepMergeMaps :: "gomap \<Rightarrow> gomap \<Rightarrow> gomap"
  fmt_Sprint :: "gomap \<Rightarrow> string"
  ListRecursive :: "'b \<Rightarrow> string \<Rightarrow> string \<Rightarrow> bool \<Rightarrow> err + val"
  EnableKV2EngineErrorIfNotForced :: "'b \<Rightarrow> bool \<Rightarrow> string \<Rightarrow> err option \<times> 'b"
  WriteSecrets :: "'b \<Rightarrow> string \<Rightarrow> string \<Rightarrow> gomap \<Rightarrow> err option \<times> 'b"
  printer_Out :: "'b \<Rightarrow> secretOption list \<Rightarrow> gomap \<Rightarrow> err option"

fun wrap :: "string \<Rightarrow> err \<Rightarrow> err" where
  "wrap pre (Err msg) = Err (pre @ msg)"

text \<open>
  The classification of the root path found in the input: more than one segment between
  delimiters makes it the engine path, otherwise it is the path.
\<close>

definition classifyRoot :: "importOptions \<Rightarrow> string \<Rightarrow> importOptions" where
  "classifyRoot o' rootPath =
     (if length (Split rootPath Delimiter) > 1
      then o'\<lparr>EnginePath := rootPath\<rparr>
      else o'\<lparr>Path := rootPath\<rparr>)"

text \<open>
  The first block of \<open>RunE\<close> after parsing: with neither \<open>-e\<close> nor \<open>-p\<close> given, the root of the
  input is looked up and classified; an error of the lookup ends the command.
\<close>

definition resolveDestination ::
  "'b collaborators \<Rightarrow> importOptions \<Rightarrow> gomap \<Rightarrow> event list \<times> (err + importOptions)" where
  "resolveDestination c o' secs =
     (if EnginePath o' = [] \<and> Path o' = [] then
        (let h = [PrintStdout
                   (''no path specified, trying to determine root path from the provided input''
                    @ newline)]
         in case GetRootElement c secs of
              (rootPath, Some e) \<Rightarrow>
                (h, Inl (wrap ''try specifying a destination path using -p/-e. '' e))
            | (rootPath, None) \<Rightarrow>
                (h @ [PrintStdout (''using '' @ dq @ rootPath @ dq @ '' as KV engine path''
                                   @ newline)],
                 Inr (classifyRoot o' rootPath)))
      else ([], Inr o'))"

definition absolutePath :: "'b collaborators \<Rightarrow> string \<Rightarrow> string \<Rightarrow> string" where
  "absolutePath c rootPath subPath = NormalizePath c (path_Join c [rootPath, subPath])"

definition callPrinterOut ::
  "'b collaborators \<Rightarrow> 'b \<Rightarrow> secretOption list \<Rightarrow> event list \<Rightarrow> gomap
     \<Rightarrow> event list \<times> err option" where
  "callPrinterOut c b printer h m = (h @ [CallPrinterOut printer m], printer_Out c b printer m)"

text \<open>
  \<open>dryRun\<close>: the existing secrets are listed and unflattened; when they print like the input
  the command says so and shows them, otherwise it shows the merge of both.
\<close>

definition dryRun ::
  "'b collaborators \<Rightarrow> 'b \<Rightarrow> secretOption list \<Rightarrow> event list \<Rightarrow> importOptions
     \<Rightarrow> string \<Rightarrow> string \<Rightarrow> gomap \<Rightarrow> event list \<times> status" where
  "dryRun c b printer h0 o' rootPath subPath secs =
     (let h1 = h0 @ [PrintStdout (''fetching KV secrets from '' @ dq
                       @ absolutePath c rootPath subPath @ dq @ '' (if any)'' @ newline),
                     CallListRecursive rootPath subPath True]
      in case ListRecursive c b rootPath subPath True of
           Inl e \<Rightarrow>
             (h1, Failed (wrap (''error listing secrets from '' @ dq @ rootPath @ ''/'' @ subPath
                                @ dq @ '': '') e))
         | Inr tmp \<Rightarrow>
             (let h2 = (if length (ToMapStringInterface c tmp) = 0
                        then h1 @ [PrintStdout (''no secrets found - nothing to compare with''
                                                @ newline)]
                        else h1);
                  existingSecrets = UnflattenMap c (absolutePath c rootPath subPath)
                                      (ToMapStringInterface c tmp) (EnginePath o')
              in if fmt_Sprint c secs = fmt_Sprint c existingSecrets then
                   (let h3 = h2 @ [PrintWriter newline,
                                   PrintWriter (''input matches secrets - no changes needed:''
                                                @ newline),
                                   PrintWriter newline]
                    in case callPrinterOut c b printer h3 existingSecrets of
                         (h4, Some e) \<Rightarrow> (h4, Failed e)
                       | (h4, None) \<Rightarrow> (h4, Done))
                 else
                   (let h3 = h2 @ [PrintWriter (''deep merging provided secrets with existing ''
                                     @ ''secrets read from '' @ dq
                                     @ absolutePath c rootPath subPath @ dq @ newline),
                                   PrintWriter newline,
                                   PrintWriter (''preview:'' @ newline),
                                   PrintWriter newline]
                    in case callPrinterOut c b printer h3 (DeepMergeMaps c secs existingSecrets) of
                         (h4, Some e) \<Rightarrow> (h4, Failed e)
                       | (h4, None) \<Rightarrow>
                           (h4 @ [PrintWriter newline,
                                  PrintWriter (''apply changes by using the --force flag''
                                               @ newline)],
                            Done))))"

text \<open>
  \<open>writeSecrets\<close>: one backend write per entry of the flattened input, in the order \<open>range\<close>
  visits them; an entry that is not a map ends the process (\<open>log.Fatalf\<close>).
\<close>

fun writeLoop ::
  "'b collaborators \<Rightarrow> 'b \<Rightarrow> event list \<Rightarrow> string \<Rightarrow> string \<Rightarrow> gomap \<Rightarrow> gomap
     \<Rightarrow> event list \<times> 'b \<times> status" where
  "writeLoop c b h rootPath subPath secs [] =
     (h @ [PrintWriter (''successfully imported all secrets'' @ newline)], b, Done)"
| "writeLoop c b h rootPath subPath secs (pm # rest) =
     (case snd pm of
        VMap secret \<Rightarrow>
          (let t = fst (GetRootElement c secs);
               trimmed = TrimPrefix (fst pm) t;
               newSubPath = (if subPath \<noteq> [] then path_Join c [subPath, trimmed] else trimmed);
               h1 = h @ [CallWriteSecrets rootPath newSubPath secret]
           in case WriteSecrets c b rootPath newSubPath secret of
                (Some e, b') \<Rightarrow>
                  (h1, b', Failed (wrap (''error writing secret '' @ dq @ fst pm @ dq @ '': '') e))
              | (None, b') \<Rightarrow>
                  writeLoop c b'
                    (h1 @ [PrintWriter (''writing secret '' @ dq
                             @ path_Join c [rootPath, newSubPath] @ dq @ '' '' @ newline)])
                    rootPath subPath secs rest)
      | v \<Rightarrow> (h, b, Fatal))"

definition writeSecrets ::
  "'b collaborators \<Rightarrow> 'b \<Rightarrow> event list \<Rightarrow> string \<Rightarrow> string \<Rightarrow> gomap
     \<Rightarrow> event list \<times> 'b \<times> status" where
  "writeSecrets c b h rootPath subPath secs =
     writeLoop c b h rootPath subPath secs (FlattenMap c secs [] [])"

text \<open>
  \<open>printResult\<close> makes the printer anew, lists what is stored now and returns it unflattened,
  with the new printer.
\<close>

definition printResult ::
  "'b collaborators \<Rightarrow> 'b \<Rightarrow> event list \<Rightarrow> importOptions \<Rightarrow> string \<Rightarrow> string
     \<Rightarrow> event list \<times> secretOption list \<times> (err + gomap)" where
  "printResult c b h0 o' rootPath subPath =
     (let h1 = h0 @ [PrintWriter newline, PrintWriter (''result:'' @ newline), PrintWriter newline];
          printer = [prt_CustomValueLength (MaxValueLengthOpt o'), prt_ShowValues (ShowValues o'),
                     prt_ToFormatBase, prt_WithVaultClient, prt_WithWriter,
                     prt_ShowVersion True, prt_ShowMetadata True, prt_ShowVersion True,
                     prt_WithEnginePath (NormalizePath c rootPath)];
          h2 = h1 @ [CallListRecursive rootPath subPath False]
      in case ListRecursive c b rootPath subPath False of
           Inl e \<Rightarrow> (h2, printer, Inl e)
         | Inr secs \<Rightarrow>
             (h2, printer, Inr (UnflattenMap c (absolutePath c rootPath subPath)
                                  (ToMapStringInterface c secs) (EnginePath o'))))"

text \<open>
  The preview's input: the loop assigns the unflattened value of every top-level entry in
  turn, so the last one visited stays.
\<close>

definition secretsWithNewPath ::
  "'b collaborators \<Rightarrow> importOptions \<Rightarrow> string \<Rightarrow> string \<Rightarrow> gomap \<Rightarrow> gomap" where
  "secretsWithNewPath c o' rootPath subPath secs =
     foldl (\<lambda>acc kv. UnflattenMap c (absolutePath c rootPath subPath)
                        (ToMapStringInterface c (snd kv)) (EnginePath o'))
       [] secs"

text \<open>
  \<open>RunE\<close>, from the parsed input on: the events of the run, the state of the backend after it,
  and how it ended.
\<close>

definition RunE ::
  "'b collaborators \<Rightarrow> 'b \<Rightarrow> importOptions \<Rightarrow> gomap \<Rightarrow> event list \<times> 'b \<times> status" where
  "RunE c b o0 secs =
     (case resolveDestination c o0 secs of
        (h0, Inl e) \<Rightarrow> (h0, b, Failed e)
      | (h0, Inr o') \<Rightarrow>
          (let rs = HandleEnginePath c (EnginePath o') (Path o');
               rootPath = fst rs;
               subPath = snd rs;
               printer = [prt_CustomValueLength (MaxValueLengthOpt o'),
                          prt_ShowValues (ShowValues o'),
                          prt_ToFormatBase, prt_WithVaultClient, prt_WithWriter,
                          prt_ShowVersion True, prt_ShowMetadata True, prt_ShowVersion False,
                          prt_WithEnginePath (NormalizePath c rootPath)]
           in if DryRun o' then
                (case dryRun c b printer h0 o' rootPath subPath
                        (secretsWithNewPath c o' rootPath subPath secs) of
                   (h1, st) \<Rightarrow> (h1, b, st))
              else
                (case EnableKV2EngineErrorIfNotForced c b (Force o') rootPath of
                   (Some e, b1) \<Rightarrow> (h0 @ [CallEnableKV2Engine (Force o') rootPath], b1, Failed e)
                 | (None, b1) \<Rightarrow>
                     (case writeSecrets c b1 (h0 @ [CallEnableKV2Engine (Force o') rootPath])
                             rootPath subPath secs of
                        (h2, b2, Done) \<Rightarrow>
                          (if \<not> Silent o' then
                             (case printResult c b2 h2 o' rootPath subPath of
                                (h3, printer', Inl e) \<Rightarrow> (h3, b2, Failed e)
                              | (h3, printer', Inr result) \<Rightarrow>
                                  (case callPrinterOut c b2 printer' h3 result of
                                     (h4, Some e) \<Rightarrow> (h4, b2, Failed e)
                                   | (h4, None) \<Rightarrow> (h4, b2, Done)))
                           else (h2, b2, Done))
                      | (h2, b2, st) \<Rightarrow> (h2, b2, st)))))"

section \<open>The tree functions of package utils\<close>

text \<open>
  Modelled from the spec: \<open>utils.GetRootElement\<close> (the spec's \<open>ResolveRoot\<close>) is not part of
  the sources at hand. The spec: it "determines the single top-level key if the structure
  has exactly one top-level key; otherwise fails with AmbiguousRootError".
\<close>

definition ResolveRoot :: "gomap \<Rightarrow> string \<times> err option" where
  "ResolveRoot m =
     (case m of
        [kv] \<Rightarrow> (fst kv, None)
      | _ \<Rightarrow> ([], Some (Err ''AmbiguousRootError'')))"

text \<open>
  Modelled from the spec: \<open>utils.DeepMergeMaps\<close> (the spec's \<open>DeepMerge\<close>) is not part of the
  sources at hand; the command calls it with the new secrets first and the existing ones
  second. The spec: the result "is the union of both inputs: for keys present only in one
  side, that side's subtree/leaf is used unchanged; for keys present in both and both
  subtrees, recurse; for keys present in both but at least one is a leaf, the new side wins
  (new overwrites existing at the leaf level, but unioned keys from existing that are absent
  in new are preserved within the leaf's key-value map)". On Go's untyped maps a subtree and
  a leaf are both maps, so two maps under one key are merged key by key, and wherever one
  of the two values is not a map the new one is taken. The entries of the new side come
  first, then those only the existing side has.
\<close>

fun mergeVal :: "val \<Rightarrow> val \<Rightarrow> val" where
  "mergeVal (VMap n) (VMap e) =
     VMap (map (\<lambda>kv. (fst kv,
                  (case map_of e (fst kv) of
                     None \<Rightarrow> snd kv
                   | Some ev \<Rightarrow> mergeVal (snd kv) ev))) n
           @ filter (\<lambda>kv. map_of n (fst kv) = None) e)"
| "mergeVal nv ev = nv"

definition DeepMerge :: "gomap \<Rightarrow> gomap \<Rightarrow> gomap" where
  "DeepMerge newTree existingTree = entries (mergeVal (VMap newTree) (VMap existingTree))"

text \<open>
  Modelled from the spec: \<open>utils.FlattenMap\<close> and \<open>utils.UnflattenMap\<close> (the spec's \<open>Flatten\<close>
  and \<open>Unflatten\<close>) are not part of the sources at hand. The spec's data model: a SecretTree
  is "a recursively nested mapping from path-segment string to either a SecretTree or a
  SecretLeaf", a FlatSecretSet "a mapping from full slash-delimited path string to
  SecretLeaf". What a leaf holds plays no part in either function; it is the type \<open>'l\<close>.
  Both mappings are association lists, in the order \<open>range\<close> visits them.
\<close>

datatype 'l node = Leaf 'l | Tree "(string \<times> 'l node) list"

type_synonym 'l SecretTree = "(string \<times> 'l node) list"

type_synonym 'l FlatSecretSet = "(string \<times> 'l) list"

text \<open>
  Modelled from the spec: the spec's \<open>join\<close> and its stripping of a prefix.
  \<open>join\<close> composes two path fragments with the delimiter between them; an empty fragment
  adds nothing. \<open>strip\<close> takes a prefix from the front of a path where the path starts with
  it, and then a delimiter from the front of what is left, so that the remainder of
  \<open>a/b/c\<close> after \<open>a\<close> is \<open>b/c\<close>.
\<close>

definition join :: "string \<Rightarrow> string \<Rightarrow> string" where
  "join a b = (if a = [] then b else if b = [] then a else a @ Delimiter @ b)"

definition strip :: "string \<Rightarrow> string \<Rightarrow> string" where
  "strip pre path = TrimPrefix (TrimPrefix path pre) Delimiter"

text \<open>
  Modelled from the spec: where \<open>Unflatten\<close> puts the leaf of a path. It "strips
  absolutePrefix (and, if enginePath is non-empty, additionally strips it as an outer
  wrapping layer ...) from the front of path, splits the remainder on the path delimiter".
\<close>

definition location :: "string \<Rightarrow> string \<Rightarrow> string \<Rightarrow> string list" where
  "location absolutePrefix enginePath path =
     Split (if enginePath = [] then strip absolutePrefix path
            else strip enginePath (strip absolutePrefix path)) Delimiter"

text \<open>
  Assigning to a key of a mapping: the entry of the key is replaced where there is one, and
  added otherwise.
\<close>

fun put :: "string \<Rightarrow> 'v \<Rightarrow> (string \<times> 'v) list \<Rightarrow> (string \<times> 'v) list" where
  "put k v [] = [(k, v)]"
| "put k v (e # es) = (if fst e = k then (k, v) # es else e # put k v es)"

text \<open>
  Modelled from the spec: \<open>Unflatten\<close> "inserts leaf at that location in the tree, creating
  intermediate nodes as needed". Where an intermediate node is needed and the tree holds a
  leaf, the leaf is replaced: the spec calls the outcome of such an input inconsistent and
  leaves it open.
\<close>

fun insertAt :: "string list \<Rightarrow> 'l \<Rightarrow> 'l SecretTree \<Rightarrow> 'l SecretTree" where
  "insertAt [] l t = t"
| "insertAt [s] l t = put s (Leaf l) t"
| "insertAt (s # ss) l t =
     (case map_of t s of
        Some (Tree sub) \<Rightarrow> put s (Tree (insertAt ss l sub)) t
      | _ \<Rightarrow> put s (Tree (insertAt ss l [])) t)"

definition Unflatten :: "string \<Rightarrow> 'l FlatSecretSet \<Rightarrow> string \<Rightarrow> 'l SecretTree" where
  "Unflatten absolutePrefix flat enginePath =
     foldl (\<lambda>t pl. insertAt (location absolutePrefix enginePath (fst pl)) (snd pl) t) [] flat"

text \<open>
  Modelled from the spec: \<open>Flatten\<close> "recursively descends the tree; at each leaf node,
  emits one FlatSecretSet entry keyed by join(prefix, pathSoFar)"; the path so far is the
  segments passed, with the delimiter between them.
\<close>

fun flattenFrom :: "string \<Rightarrow> string list \<Rightarrow> 'l node \<Rightarrow> 'l FlatSecretSet" where
  "flattenFrom prefix pathSoFar (Leaf l) = [(join prefix (joinWith Delimiter pathSoFar), l)]"
| "flattenFrom prefix pathSoFar (Tree t) =
     concat (map (\<lambda>kn. flattenFrom prefix (pathSoFar @ [fst kn]) (snd kn)) t)"

definition Flatten :: "'l SecretTree \<Rightarrow> string \<Rightarrow> 'l FlatSecretSet" where
  "Flatten tree prefix = flattenFrom prefix [] (Tree tree)"

text \<open>
  The leaves of a tree with their locations, the segments from the root down. A tree is in
  order when no mapping in it has a key twice and every subtree holds a leaf: the trees
  \<open>Unflatten\<close> builds are.
\<close>

definition below :: "string \<Rightarrow> string list \<times> 'l \<Rightarrow> string list \<times> 'l" where
  "below k ql = (k # fst ql, snd ql)"

fun leaves :: "'l node \<Rightarrow> (string list \<times> 'l) list" where
  "leaves (Leaf l) = [([], l)]"
| "leaves (Tree t) = concat (map (\<lambda>kn. map (below (fst kn)) (leaves (snd kn))) t)"

fun okNode :: "'l node \<Rightarrow> bool" where
  "okNode (Leaf l) = True"
| "okNode (Tree t) =
     (distinct (map fst t) \<and> (\<forall>kn \<in> set t. okNode (snd kn) \<and> leaves (snd kn) \<noteq> []))"

text \<open>
  No location in the list begins with another one, or equals it: no path is both an
  intermediate node and a leaf, and no two paths come to lie at one place.
\<close>

fun isPrefix :: "string list \<Rightarrow> string list \<Rightarrow> bool" where
  "isPrefix [] b = True"
| "isPrefix (x # xs) [] = False"
| "isPrefix (x # xs) (y # ys) = (x = y \<and> isPrefix xs ys)"

fun prefixFree :: "string list list \<Rightarrow> bool" where
  "prefixFree [] = True"
| "prefixFree (a # as) = ((\<forall>b \<in> set as. \<not> isPrefix a b \<and> \<not> isPrefix b a) \<and> prefixFree as)"

text \<open>
  A path lies under a prefix when it is the prefix, or the prefix followed by the delimiter
  and more; under the empty prefix, when it does not begin with the delimiter.
\<close>

definition liesUnder :: "string \<Rightarrow> string \<Rightarrow> bool" where
  "liesUnder prefix path =
     (if prefix = [] then take 1 path \<noteq> Delimiter
      else path = prefix
           \<or> (take (length prefix + 1) path = prefix @ Delimiter
               \<and> length prefix + 1 < length path))"

text \<open>
  The path under which the leaf of a path comes back from \<open>Unflatten\<close> and \<open>Flatten\<close>: the
  prefix joined with what \<open>Unflatten\<close> left of the path after stripping. With a non-empty
  engine path this is the spec's "engine-path wrapping adjustment".
\<close>

definition adjust :: "string \<Rightarrow> string \<Rightarrow> string \<Rightarrow> string" where
  "adjust absolutePrefix enginePath path =
     join absolutePrefix
       (if enginePath = [] then strip absolutePrefix path
        else strip enginePath (strip absolutePrefix path))"

section \<open>Collaborators to run the command with\<close>

text \<open>
  The collaborators of the runs on concrete inputs below; no theorem about the command
  depends on them. The tree functions are the ones modelled from the spec, carried over to
  Go's untyped maps: a map with a map among its values is a subtree, any other map a leaf.
  \<open>path.Join\<close> joins the segments of its arguments that are not empty. The backend is a store
  that answers every listing with all it holds and takes every write; the printer never
  fails.
\<close>

fun toVal :: "gomap node \<Rightarrow> val" where
  "toVal (Leaf l) = VMap l"
| "toVal (Tree t) = VMap (map (\<lambda>kn. (fst kn, toVal (snd kn))) t)"

fun fromVal :: "val \<Rightarrow> gomap node" where
  "fromVal (VMap m) =
     (if list_ex (\<lambda>kv. isMap (snd kv)) m
      then Tree (map (\<lambda>kv. (fst kv, fromVal (snd kv))) m)
      else Leaf m)"
| "fromVal v = Leaf []"

definition runCollab :: "gomap collaborators" where
  "runCollab =
     \<lparr>GetRootElement = ResolveRoot,
      HandleEnginePath = (\<lambda>enginePath path. if enginePath \<noteq> [] then (enginePath, path)
                                              else (path, [])),
      NormalizePath = (\<lambda>p. p),
      path_Join = (\<lambda>ps. joinWith Delimiter
                          (filter (\<lambda>s. s \<noteq> []) (concat (map (\<lambda>p. Split p Delimiter) ps)))),
      ToMapStringInterface = entries,
      UnflattenMap = (\<lambda>p m e. map (\<lambda>kn. (fst kn, toVal (snd kn)))
                                  (Unflatten p (map (\<lambda>kv. (fst kv, entries (snd kv))) m) e)),
      FlattenMap = (\<lambda>m result prefix.
                      result @ map (\<lambda>pl. (fst pl, VMap (snd pl)))
                                 (flattenFrom prefix [] (fromVal (VMap m)))),
      DeepMergeMaps = DeepMerge,
      fmt_Sprint = (\<lambda>m. sprintv (VMap m)),
      ListRecursive = (\<lambda>b rootPath subPath meta. Inr (VMap b)),
      EnableKV2EngineErrorIfNotForced = (\<lambda>b force rootPath. (None, b)),
      WriteSecrets = (\<lambda>b rootPath subPath secret.
                        (None, put (join rootPath subPath) (VMap secret) b)),
      printer_Out = (\<lambda>b printer m. None)\<rparr>"

section \<open>Properties of the printer\<close>

subsection \<open>Masking\<close>

lemma Repeat_maskChar: "0 \<le> n \<Longrightarrow> Repeat maskChar n = Inr (replicate (nat n) (CHR ''*''))"
  by (simp add: Repeat_def maskChar_def)

lemma maskValue_nonneg:
  "0 \<le> n \<Longrightarrow> maskValue ext n v =
     Inr (VStr (replicate (min (length (fmt_Sprintv ext v)) (nat n)) (CHR ''*'')))"
  by (auto simp: maskValue_def Let_def Repeat_maskChar min_def)

lemma maskLeaf_nonneg:
  "0 \<le> n \<Longrightarrow> maskLeaf ext n m =
     Inr (map (\<lambda>jx. (fst jx, VStr (replicate (min (length (fmt_Sprintv ext (snd jx))) (nat n))
                                   (CHR ''*'')))) m)"
  by (induction m) (simp_all add: maskValue_nonneg)

lemma maskPaths_nonneg:
  "0 \<le> n \<Longrightarrow> maskPaths ext n s =
     Inr (map (\<lambda>kv. (fst kv,
            (case snd kv of
               VMap m \<Rightarrow> VMap (map (\<lambda>jx. (fst jx,
                           VStr (replicate (min (length (fmt_Sprintv ext (snd jx))) (nat n))
                                  (CHR ''*'')))) m)
             | v \<Rightarrow> v))) s)"
  by (induction s) (simp_all add: maskLeaf_nonneg split: val.splits)

text \<open>
  C2. The printer holds, under each path, the keys and values of that path. When masking is
  on (no option has left \<open>showSecrets\<close> set) and the value length is not negative,
  \<open>NewPrinter\<close> does not panic, and the printer it returns holds, for every value \<open>v\<close> under a
  key of a path, a string of mask characters of length
  \<open>min (len (stringify v)) valueLength\<close>; paths, keys and the values of paths that are not maps
  are as they were.
\<close>

theorem masked_length:
  assumes "applyOptions opts (initPrinter m) = p" and "\<not> showSecrets p" and "0 \<le> valueLength p"
  shows "NewPrinter ext m opts =
     Inr (p\<lparr>secrets := map (\<lambda>kv. (fst kv,
            (case snd kv of
               VMap l \<Rightarrow> VMap (map (\<lambda>jx. (fst jx,
                           VStr (replicate (min (length (fmt_Sprintv ext (snd jx)))
                                              (nat (valueLength p))) (CHR ''*'')))) l)
             | v \<Rightarrow> v))) (secrets p)\<rparr>)"
  using assms by (simp add: NewPrinter_def Let_def maskSecrets_def maskPaths_nonneg)

theorem masked_length_witness:
  "\<not> showSecrets (applyOptions [CustomValueLength 4]
       (initPrinter [(''db'', VMap [(''user'', VStr ''alice''),
                                    (''pass'', VStr ''s3cretpassword'')])]))
   \<and> 0 \<le> valueLength (applyOptions [CustomValueLength 4]
       (initPrinter [(''db'', VMap [(''user'', VStr ''alice''),
                                    (''pass'', VStr ''s3cretpassword'')])]))
   \<and> NewPrinter runExt
       [(''db'', VMap [(''user'', VStr ''alice''), (''pass'', VStr ''s3cretpassword'')])]
       [CustomValueLength 4]
     = Inr \<lparr>secrets = [(''db'', VMap [(''user'', VStr ''****''), (''pass'', VStr ''****'')])],
            format = 0, writer = Stdout, onlyKeys = False, onlyPaths = False,
            showSecrets = False, valueLength = 4\<rparr>"
  using masked_length [OF refl, where opts = "[CustomValueLength 4]" and ext = runExt
      and m = "[(''db'', VMap [(''user'', VStr ''alice''), (''pass'', VStr ''s3cretpassword'')])]"]
  by (simp add: applyOptions_def initPrinter_def runExt_def defaultWriter_def)

text \<open>
  C3. With the value length set to \<open>-1\<close> and masking on, the length of every formatted value
  is greater than the value length, so \<open>maskSecrets\<close> calls \<open>strings.Repeat\<close> with the count
  \<open>-1\<close>: \<open>NewPrinter\<close> panics on a printer that holds any value, here on the path \<open>p\<close> with
  the key \<open>k\<close> and the value \<open>v\<close>.
\<close>

theorem negative_length_panics:
  "NewPrinter runExt [(''p'', VMap [(''k'', VStr ''v'')])] [CustomValueLength (- 1)]
     = Inl NegativeRepeatCount"
  by (simp add: NewPrinter_def runExt_def applyOptions_def initPrinter_def maskSecrets_def
      maskValue_def Repeat_def)

subsection \<open>The export format\<close>

lemma exportPaths_panics:
  "s \<in> set ss \<Longrightarrow> \<not> isMap (index secs s) \<Longrightarrow> exportPaths ext secs ss = Panic InterfaceConversion"
proof (induction ss)
  case Nil
  then show ?case by simp
next
  case (Cons a ss)
  show ?case
  proof (cases "isMap (index secs a)")
    case True
    then obtain m where m: "index secs a = VMap m" by (cases "index secs a") auto
    from True Cons.prems have "s \<in> set ss" by auto
    with Cons have "exportPaths ext secs ss = Panic InterfaceConversion" by simp
    with m show ?thesis by simp
  next
    case False
    then show ?thesis by (cases "index secs a") auto
  qed
qed

lemma index_Some: "map_of m k = Some v \<Longrightarrow> index m k = v"
  by (simp add: index_def)

lemma key_in_SortMapKeys: "map_of m k = Some v \<Longrightarrow> k \<in> set (SortMapKeys m)"
  by (auto simp: SortMapKeys_def dest: map_of_SomeD intro: rev_image_eqI)

lemma Out_export_not_map:
  assumes "format p = export" and "map_of (secrets p) s = Some v" and "\<not> isMap v"
  shows "Out ext p = Panic InterfaceConversion"
proof -
  have "exportPaths ext (secrets p) (SortMapKeys (secrets p)) = Panic InterfaceConversion"
    using assms by (intro exportPaths_panics [of s]) (simp_all add: key_in_SortMapKeys index_Some)
  with assms(1) show ?thesis by (simp add: Out_def export_def yaml_def json_def)
qed

lemma applyOption_keys: "map fst (secrets (applyOption opt p)) = map fst (secrets p)"
  by (cases opt) (simp_all add: printOnlykeys_def printOnlyPaths_def comp_def)

lemma applyOption_allNil: "allNil (secrets p) \<Longrightarrow> allNil (secrets (applyOption opt p))"
  by (cases opt) (auto simp: allNil_def printOnlykeys_def printOnlyPaths_def)

lemma applyOptions_keys: "map fst (secrets (applyOptions opts p)) = map fst (secrets p)"
  unfolding applyOptions_def
  by (induction opts arbitrary: p) (simp_all add: applyOption_keys)

lemma applyOptions_allNil: "allNil (secrets p) \<Longrightarrow> allNil (secrets (applyOptions opts p))"
  unfolding applyOptions_def
  by (induction opts arbitrary: p) (simp_all add: applyOption_allNil)

lemma applyOptions_OnlyPaths:
  "OnlyPaths True \<in> set opts \<Longrightarrow> allNil (secrets (applyOptions opts p))"
proof (induction opts arbitrary: p)
  case Nil
  then show ?case by simp
next
  case (Cons opt opts)
  have step: "applyOptions (opt # opts) p = applyOptions opts (applyOption opt p)"
    by (simp add: applyOptions_def)
  show ?case
  proof (cases "opt = OnlyPaths True")
    case True
    then have "allNil (secrets (applyOption opt p))"
      by (simp add: allNil_def printOnlyPaths_def)
    then show ?thesis unfolding step by (rule applyOptions_allNil)
  next
    case False
    with Cons.prems have "OnlyPaths True \<in> set opts" by simp
    then show ?thesis unfolding step by (rule Cons.IH)
  qed
qed

lemma maskPaths_allNil: "allNil s \<Longrightarrow> maskPaths ext n s = Inr s"
  by (induction s) (auto simp: allNil_def)


text \<open>
  C10. In the export format \<open>Out\<close> asserts every top-level value to be a map without checking:
  a printer in that format that holds, under some path, a value that is not a map makes
  \<open>Out\<close> panic, and it returns no error. In particular, whenever the options enable
  only-paths and leave the export format, on a map that is not empty, \<open>NewPrinter\<close> returns
  a printer whose top-level values are all \<open>nil\<close>, and \<open>Out\<close> panics on it.
\<close>

theorem export_panics:
  "(format p = export \<and> map_of (secrets p) s = Some v \<and> \<not> isMap v
      \<longrightarrow> Out ext p = Panic InterfaceConversion)
   \<and> (OnlyPaths True \<in> set opts \<and> m \<noteq> [] \<and> format (applyOptions opts (initPrinter m)) = export
      \<longrightarrow> NewPrinter ext m opts = Inr (applyOptions opts (initPrinter m))
          \<and> Out ext (applyOptions opts (initPrinter m)) = Panic InterfaceConversion)"
proof (intro conjI impI)
  assume "format p = export \<and> map_of (secrets p) s = Some v \<and> \<not> isMap v"
  then show "Out ext p = Panic InterfaceConversion"
    by (blast intro: Out_export_not_map)
next
  define q where "q = applyOptions opts (initPrinter m)"
  assume h: "OnlyPaths True \<in> set opts \<and> m \<noteq> [] \<and> format (applyOptions opts (initPrinter m)) = export"
  then have nil: "allNil (secrets q)" unfolding q_def using applyOptions_OnlyPaths by blast
  then show "NewPrinter ext m opts = Inr (applyOptions opts (initPrinter m))"
    unfolding q_def by (simp add: NewPrinter_def Let_def maskSecrets_def maskPaths_allNil)
  from h have "map fst (secrets q) \<noteq> []"
    unfolding q_def using applyOptions_keys [of opts "initPrinter m"] by (simp add: initPrinter_def)
  then obtain k v rest where kv: "secrets q = (k, v) # rest" by (cases "secrets q") auto
  with nil have "v = VNil" by (simp add: allNil_def)
  with kv have "map_of (secrets q) k = Some VNil" by simp
  moreover from h have "format q = export" by (simp add: q_def)
  ultimately have "Out ext q = Panic InterfaceConversion"
    using Out_export_not_map [of q k VNil ext] by simp
  then show "Out ext (applyOptions opts (initPrinter m)) = Panic InterfaceConversion"
    by (simp add: q_def)
qed

theorem export_panics_witness:
  "format \<lparr>secrets = [(''p'', VStr ''x'')], format = export, writer = Stdout, onlyKeys = False,
           onlyPaths = False, showSecrets = True, valueLength = 12\<rparr> = export
   \<and> map_of (secrets \<lparr>secrets = [(''p'', VStr ''x'')], format = export, writer = Stdout,
           onlyKeys = False, onlyPaths = False, showSecrets = True, valueLength = 12\<rparr>) ''p''
       = Some (VStr ''x'')
   \<and> \<not> isMap (VStr ''x'')
   \<and> Out runExt \<lparr>secrets = [(''p'', VStr ''x'')], format = export, writer = Stdout,
           onlyKeys = False, onlyPaths = False, showSecrets = True, valueLength = 12\<rparr>
       = Panic InterfaceConversion
   \<and> OnlyPaths True \<in> set [OnlyPaths True, ToExportFormat True]
   \<and> [(''p'', VMap [(''k'', VStr ''v'')])] \<noteq> []
   \<and> format (applyOptions [OnlyPaths True, ToExportFormat True]
               (initPrinter [(''p'', VMap [(''k'', VStr ''v'')])])) = export
   \<and> render runExt [(''p'', VMap [(''k'', VStr ''v'')])] [OnlyPaths True, ToExportFormat True]
       = Panic InterfaceConversion"
  using export_panics [of
      "\<lparr>secrets = [(''p'', VStr ''x'')], format = export, writer = Stdout, onlyKeys = False,
        onlyPaths = False, showSecrets = True, valueLength = 12\<rparr>"
      "''p''" "VStr ''x''" runExt "[OnlyPaths True, ToExportFormat True]"
      "[(''p'', VMap [(''k'', VStr ''v'')])]"]
  by (simp add: render_def applyOptions_def initPrinter_def)

subsection \<open>Options after the export format\<close>

lemma applyOptions_Cons: "applyOptions (opt # opts) p = applyOptions opts (applyOption opt p)"
  by (simp add: applyOptions_def)

lemma applyOptions_append:
  "applyOptions (pre @ post) p = applyOptions post (applyOptions pre p)"
  by (simp add: applyOptions_def)

lemma showSecrets_kept:
  "showSecrets p \<Longrightarrow> ShowSecrets False \<notin> set opts \<Longrightarrow> showSecrets (applyOptions opts p)"
proof (induction opts arbitrary: p)
  case Nil
  then show ?case by (simp add: applyOptions_def)
next
  case (Cons opt opts)
  from Cons.prems have "showSecrets (applyOption opt p)"
    by (cases opt) (auto simp: printOnlykeys_def printOnlyPaths_def)
  with Cons show ?case by (simp add: applyOptions_Cons)
qed

lemma export_kept:
  "format p = export \<Longrightarrow> ToYAML True \<notin> set opts \<Longrightarrow> ToJSON True \<notin> set opts
     \<Longrightarrow> format (applyOptions opts p) = export"
proof (induction opts arbitrary: p)
  case Nil
  then show ?case by (simp add: applyOptions_def)
next
  case (Cons opt opts)
  from Cons.prems have "format (applyOption opt p) = export"
    by (cases opt) (auto simp: printOnlykeys_def printOnlyPaths_def)
  with Cons show ?case by (simp add: applyOptions_Cons)
qed

lemma secrets_kept:
  "OnlyKeys True \<notin> set opts \<Longrightarrow> OnlyPaths True \<notin> set opts
     \<Longrightarrow> secrets (applyOptions opts p) = secrets p"
proof (induction opts arbitrary: p)
  case Nil
  then show ?case by (simp add: applyOptions_def)
next
  case (Cons opt opts)
  from Cons.prems have "secrets (applyOption opt p) = secrets p"
    by (cases opt) auto
  with Cons show ?case by (simp add: applyOptions_Cons)
qed

lemma exportPaths_maps:
  "\<forall>s \<in> set ss. isMap (index secs s) \<Longrightarrow>
     exportPaths ext secs ss
       = Ok (concat (map (\<lambda>s. concat (map (exportLine ext) (entries (index secs s)))) ss))"
proof (induction ss)
  case Nil
  then show ?case by simp
next
  case (Cons a ss)
  then obtain l where "index secs a = VMap l" by (cases "index secs a") auto
  with Cons show ?case by simp
qed

lemma index_of_key_isMap:
  assumes "\<forall>kv \<in> set m. isMap (snd kv)" and "s \<in> set (SortMapKeys m)"
  shows "isMap (index m s)"
proof -
  from assms(2) have "s \<in> fst ` set m" by (simp add: SortMapKeys_def)
  then obtain v where "map_of m s = Some v"
    by (metis domD dom_map_of_conv_image_fst)
  moreover from this have "(s, v) \<in> set m" by (rule map_of_SomeD)
  ultimately show ?thesis using assms(1) by (auto simp: index_def)
qed

text \<open>
  C9, as amended. The options are applied in the order given, and the export-format option
  sets \<open>showSecrets\<close> at its place in the list. When no later option unsets it, and no option
  enables only-keys or only-paths, \<open>NewPrinter\<close> masks nothing, whatever the value length and
  the show-secrets options before: the printer holds the map it was given. When moreover no
  later option selects YAML or JSON and every top-level value is a map, the output is, for
  the paths in sorted order, one \<open>export\<close> line for each entry, with the value as \<open>%v\<close> formats
  it.
\<close>

theorem export_shows_secrets:
  assumes "opts = pre @ ToExportFormat b # post"
    and "ShowSecrets False \<notin> set post"
    and "OnlyKeys True \<notin> set opts" and "OnlyPaths True \<notin> set opts"
  shows "NewPrinter ext m opts = Inr (applyOptions opts (initPrinter m))
     \<and> secrets (applyOptions opts (initPrinter m)) = m
     \<and> (ToYAML True \<notin> set post \<and> ToJSON True \<notin> set post \<and> (\<forall>kv \<in> set m. isMap (snd kv))
          \<longrightarrow> render ext m opts
               = Ok (concat (map (\<lambda>s. concat (map (exportLine ext) (entries (index m s))))
                       (SortMapKeys m))))"
proof -
  define q where "q = applyOption (ToExportFormat b) (applyOptions pre (initPrinter m))"
  have split: "applyOptions opts (initPrinter m) = applyOptions post q"
    by (simp add: assms(1) q_def applyOptions_append applyOptions_Cons)
  have "showSecrets q" and fq: "format q = export" by (simp_all add: q_def)
  then have shown: "showSecrets (applyOptions opts (initPrinter m))"
    using assms(2) by (simp add: split showSecrets_kept)
  then have new: "NewPrinter ext m opts = Inr (applyOptions opts (initPrinter m))"
    by (simp add: NewPrinter_def)
  have same: "secrets (applyOptions opts (initPrinter m)) = m"
    using assms(3,4) by (simp add: secrets_kept initPrinter_def)
  have out: "render ext m opts
      = Ok (concat (map (\<lambda>s. concat (map (exportLine ext) (entries (index m s)))) (SortMapKeys m)))"
    if h: "ToYAML True \<notin> set post \<and> ToJSON True \<notin> set post \<and> (\<forall>kv \<in> set m. isMap (snd kv))"
  proof -
    from h fq have "format (applyOptions opts (initPrinter m)) = export"
      by (simp add: split export_kept)
    moreover from h have "\<forall>s \<in> set (SortMapKeys m). isMap (index m s)"
      by (blast intro: index_of_key_isMap)
    ultimately show ?thesis
      by (simp add: render_def new Out_def same exportPaths_maps export_def yaml_def json_def)
  qed
  from new same out show ?thesis by blast
qed

theorem export_shows_secrets_witness:
  "[ShowSecrets False, CustomValueLength 2, ToExportFormat True]
     = [ShowSecrets False, CustomValueLength 2] @ ToExportFormat True # []
   \<and> ShowSecrets False \<notin> set ([] :: Option list)
   \<and> OnlyKeys True \<notin> set [ShowSecrets False, CustomValueLength 2, ToExportFormat True]
   \<and> OnlyPaths True \<notin> set [ShowSecrets False, CustomValueLength 2, ToExportFormat True]
   \<and> ToYAML True \<notin> set ([] :: Option list) \<and> ToJSON True \<notin> set ([] :: Option list)
   \<and> map (\<lambda>kv. isMap (snd kv)) [(''p'', VMap [(''k'', VStr ''secret'')])] = [True]
   \<and> render runExt [(''p'', VMap [(''k'', VStr ''secret'')])]
         [ShowSecrets False, CustomValueLength 2, ToExportFormat True]
       = Ok (''export k=secret'' @ newline)"
  using export_shows_secrets [of "[ShowSecrets False, CustomValueLength 2, ToExportFormat True]"
      "[ShowSecrets False, CustomValueLength 2]" True "[]" runExt
      "[(''p'', VMap [(''k'', VStr ''secret'')])]"]
  by (simp add: SortMapKeys_def index_def exportLine_def runExt_def)

text \<open>
  C9 as stated fails: with the show-secrets option unset after the export-format option,
  the printer masks, and the line written for the key \<open>k\<close> carries six mask characters
  instead of the value \<open>secret\<close>.
\<close>

theorem export_then_hide_masks:
  "render runExt [(''p'', VMap [(''k'', VStr ''secret'')])] [ToExportFormat True, ShowSecrets False]
     = Ok (''export k=******'' @ newline)
   \<and> ''export k=******'' @ newline \<noteq> ''export k='' @ sprintv (VStr ''secret'') @ newline"
  by (simp add: render_def NewPrinter_def runExt_def applyOptions_def initPrinter_def
      maskSecrets_def maskValue_def Repeat_def maskChar_def Out_def export_def yaml_def json_def
      SortMapKeys_def index_def exportLine_def MaxValueLength_def eval_nat_numeral)

subsection \<open>The order of the keys in the export format\<close>

text \<open>
  C4. In the export format \<open>Out\<close> sorts the paths but ranges over the map of each path as the
  runtime orders it. The same map, visited in two orders, gives two outputs: the keys \<open>a\<close>
  and \<open>b\<close> of the path \<open>p\<close> are written in the order of the visit, not sorted.
\<close>

theorem export_order_differs:
  "sameMap [(''p'', VMap [(''a'', VStr ''1''), (''b'', VStr ''2'')])]
           [(''p'', VMap [(''b'', VStr ''2''), (''a'', VStr ''1'')])]
   \<and> render runExt [(''p'', VMap [(''a'', VStr ''1''), (''b'', VStr ''2'')])] [ToExportFormat True]
       = Ok (''export a=1'' @ newline @ ''export b=2'' @ newline)
   \<and> render runExt [(''p'', VMap [(''b'', VStr ''2''), (''a'', VStr ''1'')])] [ToExportFormat True]
       = Ok (''export b=2'' @ newline @ ''export a=1'' @ newline)"
  by (simp add: sameMap_def render_def NewPrinter_def runExt_def applyOptions_def initPrinter_def
      Out_def export_def yaml_def json_def SortMapKeys_def index_def exportLine_def)

section \<open>Properties of the import command\<close>

subsection \<open>The root path found in the input\<close>

lemma splitAux_length:
  "length (splitAux ''/'' cur s) = Suc (length (filter (\<lambda>c. c = CHR ''/'') s))"
  by (induction s arbitrary: cur) auto

lemma Split_segments:
  "length (Split s Delimiter) = Suc (length (filter (\<lambda>c. c = CHR ''/'') s))"
  by (simp add: Split_def Delimiter_def splitAux_length)

lemma more_segments_iff: "length (Split s Delimiter) > 1 \<longleftrightarrow> CHR ''/'' \<in> set s"
  by (auto simp: Split_segments filter_empty_conv length_greater_0_conv [symmetric]
      simp del: length_greater_0_conv)

text \<open>
  C5. When neither path is given and the root of the input is found, the command goes on
  with the root as its engine path if splitting it at the delimiter gives more than one
  segment, and as its path otherwise; there is more than one segment exactly when the root
  holds a delimiter. The root \<open>secret\<close> becomes the path.
\<close>

theorem root_classified:
  assumes "EnginePath o0 = []" and "Path o0 = []" and "GetRootElement c secs = (rootPath, None)"
  shows "snd (resolveDestination c o0 secs)
           = Inr (if length (Split rootPath Delimiter) > 1
                  then o0\<lparr>EnginePath := rootPath\<rparr> else o0\<lparr>Path := rootPath\<rparr>)
       \<and> (length (Split rootPath Delimiter) > 1 \<longleftrightarrow> CHR ''/'' \<in> set rootPath)
       \<and> (rootPath = ''secret''
            \<longrightarrow> snd (resolveDestination c o0 secs) = Inr (o0\<lparr>Path := ''secret''\<rparr>))"
proof -
  have res: "snd (resolveDestination c o0 secs) = Inr (classifyRoot o0 rootPath)"
    using assms by (simp add: resolveDestination_def Let_def)
  have one: "\<not> length (Split ''secret'' Delimiter) > 1"
    unfolding more_segments_iff by simp
  show ?thesis
    using one unfolding res classifyRoot_def more_segments_iff by auto
qed

theorem root_classified_witness:
  "EnginePath \<lparr>EnginePath = [], Path = [], File = [], Force = False, DryRun = False,
                Silent = False, ShowValues = False, MaxValueLengthOpt = 12\<rparr> = []
   \<and> Path \<lparr>EnginePath = [], Path = [], File = [], Force = False, DryRun = False,
            Silent = False, ShowValues = False, MaxValueLengthOpt = 12\<rparr> = []
   \<and> GetRootElement runCollab
         [(''secret'', VMap [(''app'', VMap [(''db'',
             VMap [(''user'', VStr ''alice''), (''pass'', VStr ''s3cret'')])])])]
       = (''secret'', None)
   \<and> snd (resolveDestination runCollab
         \<lparr>EnginePath = [], Path = [], File = [], Force = False, DryRun = False,
          Silent = False, ShowValues = False, MaxValueLengthOpt = 12\<rparr>
         [(''secret'', VMap [(''app'', VMap [(''db'',
             VMap [(''user'', VStr ''alice''), (''pass'', VStr ''s3cret'')])])])])
       = Inr \<lparr>EnginePath = [], Path = ''secret'', File = [], Force = False, DryRun = False,
              Silent = False, ShowValues = False, MaxValueLengthOpt = 12\<rparr>"
  using root_classified [of
      "\<lparr>EnginePath = [], Path = [], File = [], Force = False, DryRun = False,
        Silent = False, ShowValues = False, MaxValueLengthOpt = 12\<rparr>"
      runCollab
      "[(''secret'', VMap [(''app'', VMap [(''db'',
             VMap [(''user'', VStr ''alice''), (''pass'', VStr ''s3cret'')])])])]"
      "''secret''"]
  by (simp add: runCollab_def ResolveRoot_def)

subsection \<open>The dry run\<close>

lemma resolveDestination_prints:
  "resolveDestination c o0 secs = (h, r) \<Longrightarrow> \<forall>e \<in> set h. \<not> isWrite e"
  by (auto simp: resolveDestination_def Let_def split: if_splits prod.splits option.splits)

lemma resolveDestination_DryRun:
  "resolveDestination c o0 secs = (h, Inr o') \<Longrightarrow> DryRun o' = DryRun o0"
  by (auto simp: resolveDestination_def Let_def classifyRoot_def
      split: if_splits prod.splits option.splits)

text \<open>
  C7. In a dry run in which the destination is settled and the backend's listing succeeds,
  and the tree made from the input equals the tree made from the listing, the command
  writes the line "input matches secrets - no changes needed:", its events hold neither
  the enabling of an engine nor the writing of a secret, and the backend is in the state it
  was in.
\<close>

theorem dry_run_no_changes:
  assumes "DryRun o0"
    and "resolveDestination c o0 secs = (h0, Inr o')"
    and "HandleEnginePath c (EnginePath o') (Path o') = (rootPath, subPath)"
    and "ListRecursive c b rootPath subPath True = Inr tmp"
    and "secretsWithNewPath c o' rootPath subPath secs
           = UnflattenMap c (absolutePath c rootPath subPath) (ToMapStringInterface c tmp)
               (EnginePath o')"
  shows "\<exists>h st. RunE c b o0 secs = (h, b, st)
           \<and> PrintWriter (''input matches secrets - no changes needed:'' @ newline) \<in> set h
           \<and> filter isWrite h = []"
proof -
  from assms(1,2) have dry: "DryRun o'" by (simp add: resolveDestination_DryRun)
  from assms(2) have h0: "\<forall>e \<in> set h0. \<not> isWrite e" by (rule resolveDestination_prints)
  show ?thesis
    using assms(2-5) dry h0
    by (cases "printer_Out c b [prt_CustomValueLength (MaxValueLengthOpt o'),
                          prt_ShowValues (ShowValues o'),
                          prt_ToFormatBase, prt_WithVaultClient, prt_WithWriter,
                          prt_ShowVersion True, prt_ShowMetadata True, prt_ShowVersion False,
                          prt_WithEnginePath (NormalizePath c rootPath)]
             (UnflattenMap c (absolutePath c rootPath subPath) (ToMapStringInterface c tmp)
               (EnginePath o'))")
       (auto simp: RunE_def dryRun_def Let_def callPrinterOut_def filter_empty_conv)
qed

theorem dry_run_no_changes_witness:
  "DryRun \<lparr>EnginePath = [], Path = ''secret'', File = [], Force = False, DryRun = True,
            Silent = False, ShowValues = False, MaxValueLengthOpt = 12\<rparr>
   \<and> resolveDestination runCollab
         \<lparr>EnginePath = [], Path = ''secret'', File = [], Force = False, DryRun = True,
          Silent = False, ShowValues = False, MaxValueLengthOpt = 12\<rparr>
         [(''secret'', VMap [(''secret/app/db'', VMap [(''user'', VStr ''alice'')])])]
       = ([], Inr \<lparr>EnginePath = [], Path = ''secret'', File = [], Force = False, DryRun = True,
                    Silent = False, ShowValues = False, MaxValueLengthOpt = 12\<rparr>)
   \<and> HandleEnginePath runCollab [] ''secret'' = (''secret'', [])
   \<and> ListRecursive runCollab [(''secret/app/db'', VMap [(''user'', VStr ''alice'')])]
         ''secret'' [] True
       = Inr (VMap [(''secret/app/db'', VMap [(''user'', VStr ''alice'')])])
   \<and> secretsWithNewPath runCollab
         \<lparr>EnginePath = [], Path = ''secret'', File = [], Force = False, DryRun = True,
          Silent = False, ShowValues = False, MaxValueLengthOpt = 12\<rparr>
         ''secret'' []
         [(''secret'', VMap [(''secret/app/db'', VMap [(''user'', VStr ''alice'')])])]
       = UnflattenMap runCollab (absolutePath runCollab ''secret'' [])
           (ToMapStringInterface runCollab
              (VMap [(''secret/app/db'', VMap [(''user'', VStr ''alice'')])])) []
   \<and> (\<exists>h st. RunE runCollab [(''secret/app/db'', VMap [(''user'', VStr ''alice'')])]
                  \<lparr>EnginePath = [], Path = ''secret'', File = [], Force = False, DryRun = True,
                   Silent = False, ShowValues = False, MaxValueLengthOpt = 12\<rparr>
                  [(''secret'', VMap [(''secret/app/db'', VMap [(''user'', VStr ''alice'')])])]
                = (h, [(''secret/app/db'', VMap [(''user'', VStr ''alice'')])], st)
          \<and> PrintWriter (''input matches secrets - no changes needed:'' @ newline) \<in> set h
          \<and> filter isWrite h = [])"
  using dry_run_no_changes [of
      "\<lparr>EnginePath = [], Path = ''secret'', File = [], Force = False, DryRun = True,
        Silent = False, ShowValues = False, MaxValueLengthOpt = 12\<rparr>"
      runCollab
      "[(''secret'', VMap [(''secret/app/db'', VMap [(''user'', VStr ''alice'')])])]"
      "[]"
      "\<lparr>EnginePath = [], Path = ''secret'', File = [], Force = False, DryRun = True,
        Silent = False, ShowValues = False, MaxValueLengthOpt = 12\<rparr>"
      "''secret''" "[]"
      "[(''secret/app/db'', VMap [(''user'', VStr ''alice'')])]"
      "VMap [(''secret/app/db'', VMap [(''user'', VStr ''alice'')])]"]
  by (simp add: runCollab_def resolveDestination_def secretsWithNewPath_def)



section \<open>Properties of the merge\<close>

lemma mergeVal_not_map: "\<not> isMap nv \<Longrightarrow> mergeVal nv ev = nv"
  by (cases nv) simp_all

lemma map_of_distinct_entry:
  "distinct (map fst m) \<Longrightarrow> kv \<in> set m \<Longrightarrow> map_of m (fst kv) = Some (snd kv)"
  by (cases kv) simp

lemma mergeVal_same: "wfVal v \<Longrightarrow> mergeVal v v = v"
proof (induction v)
  case (VMap m)
  have keep: "filter (\<lambda>kv. map_of m (fst kv) = None) m = []"
    by (auto simp: filter_empty_conv map_of_eq_None_iff)
  have "map (\<lambda>kv. (fst kv, (case map_of m (fst kv) of None \<Rightarrow> snd kv
                              | Some ev \<Rightarrow> mergeVal (snd kv) ev))) m = map (\<lambda>kv. kv) m"
  proof (rule map_cong [OF refl])
    fix kv assume kv: "kv \<in> set m"
    with VMap.prems have look: "map_of m (fst kv) = Some (snd kv)"
      by (simp add: map_of_distinct_entry)
    from kv VMap.prems have "wfVal (snd kv)" by simp
    moreover have "snd kv \<in> Basic_BNFs.snds kv" by (cases kv) simp
    ultimately have "mergeVal (snd kv) (snd kv) = snd kv"
      using VMap.IH kv by blast
    with look show "(fst kv, (case map_of m (fst kv) of None \<Rightarrow> snd kv
                              | Some ev \<Rightarrow> mergeVal (snd kv) ev)) = kv"
      by simp
  qed
  with keep show ?case by simp
qed simp_all

text \<open>
  C8. Merging a tree with itself gives the tree back: for every map with unique keys at
  every level, which is what a Go map is, \<open>DeepMerge t t = t\<close>.
\<close>

theorem merge_same:
  assumes "wfMap t"
  shows "DeepMerge t t = t"
  using assms mergeVal_same [of "VMap t"] by (simp add: DeepMerge_def wfMap_def del: mergeVal.simps)

theorem merge_same_witness:
  "wfMap [(''a'', VMap [(''k'', VStr ''0''), (''j'', VStr ''2'')]), (''b'', VMap [])]
   \<and> DeepMerge [(''a'', VMap [(''k'', VStr ''0''), (''j'', VStr ''2'')]), (''b'', VMap [])]
                [(''a'', VMap [(''k'', VStr ''0''), (''j'', VStr ''2'')]), (''b'', VMap [])]
       = [(''a'', VMap [(''k'', VStr ''0''), (''j'', VStr ''2'')]), (''b'', VMap [])]"
  using merge_same [of "[(''a'', VMap [(''k'', VStr ''0''), (''j'', VStr ''2'')]), (''b'', VMap [])]"]
  by (simp add: wfMap_def)

lemma map_of_filter_key:
  "map_of (filter (\<lambda>kv. P (fst kv)) xs) k = (if P k then map_of xs k else None)"
  by (induction xs) auto

lemma merge_leaf_lookup:
  assumes "\<forall>kv \<in> set ln. \<not> isMap (snd kv)"
  shows "map_of (entries (mergeVal (VMap ln) (VMap le))) k
           = (case map_of ln k of Some v \<Rightarrow> Some v | None \<Rightarrow> map_of le k)"
proof -
  have "map (\<lambda>kv. (fst kv, (case map_of le (fst kv) of None \<Rightarrow> snd kv
                              | Some ev \<Rightarrow> mergeVal (snd kv) ev))) ln = map (\<lambda>kv. kv) ln"
    using assms by (intro map_cong [OF refl]) (auto simp: mergeVal_not_map split: option.splits)
  then show ?thesis
    by (simp add: map_of_append map_add_def map_of_filter_key [where P = "\<lambda>k. map_of ln k = None"]
        split: option.splits)
qed

lemma DeepMerge_lookup_both:
  assumes "map_of new a = Some nv" and "map_of ex a = Some ev"
  shows "map_of (DeepMerge new ex) a = Some (mergeVal nv ev)"
proof -
  have "map_of (map (\<lambda>kv. (fst kv, (case map_of ex (fst kv) of None \<Rightarrow> snd kv
                              | Some ev \<Rightarrow> mergeVal (snd kv) ev))) new) a
        = Some (mergeVal nv ev)"
    using assms by (induction new) (auto split: if_splits)
  then show ?thesis by (simp add: DeepMerge_def map_of_append map_add_def)
qed

text \<open>
  C6. The new side wins key by key: when a key \<open>a\<close> holds a map on both sides and the new
  one is a leaf (none of its values is a map), the merge holds a map under \<open>a\<close> whose value
  for a key is the new leaf's where the new leaf has the key, and the existing one's
  otherwise. The example of the spec evaluates to the tree it gives.
\<close>

theorem merge_new_wins:
  "(map_of newTree a = Some (VMap ln) \<and> map_of existingTree a = Some (VMap le)
      \<and> (\<forall>kv \<in> set ln. \<not> isMap (snd kv))
      \<longrightarrow> (\<exists>r. map_of (DeepMerge newTree existingTree) a = Some (VMap r)
             \<and> (\<forall>k. map_of r k = (case map_of ln k of Some v \<Rightarrow> Some v | None \<Rightarrow> map_of le k))))
   \<and> DeepMerge [(''a'', VMap [(''k'', VStr ''1'')])]
                [(''a'', VMap [(''k'', VStr ''0''), (''j'', VStr ''2'')])]
       = [(''a'', VMap [(''k'', VStr ''1''), (''j'', VStr ''2'')])]"
proof (intro conjI impI)
  assume h: "map_of newTree a = Some (VMap ln) \<and> map_of existingTree a = Some (VMap le)
      \<and> (\<forall>kv \<in> set ln. \<not> isMap (snd kv))"
  from h have "map_of (DeepMerge newTree existingTree) a = Some (mergeVal (VMap ln) (VMap le))"
    by (simp add: DeepMerge_lookup_both del: mergeVal.simps)
  moreover obtain r where r: "mergeVal (VMap ln) (VMap le) = VMap r" by simp
  moreover have "\<forall>k. map_of r k = (case map_of ln k of Some v \<Rightarrow> Some v | None \<Rightarrow> map_of le k)"
    using merge_leaf_lookup [of ln le] h r by (simp del: mergeVal.simps) 
  ultimately show "\<exists>r. map_of (DeepMerge newTree existingTree) a = Some (VMap r)
             \<and> (\<forall>k. map_of r k = (case map_of ln k of Some v \<Rightarrow> Some v | None \<Rightarrow> map_of le k))"
    by simp
next
  show "DeepMerge [(''a'', VMap [(''k'', VStr ''1'')])]
                [(''a'', VMap [(''k'', VStr ''0''), (''j'', VStr ''2'')])]
       = [(''a'', VMap [(''k'', VStr ''1''), (''j'', VStr ''2'')])]"
    by (simp add: DeepMerge_def)
qed

theorem merge_new_wins_witness:
  "map_of [(''a'', VMap [(''k'', VStr ''1'')])] ''a'' = Some (VMap [(''k'', VStr ''1'')])
   \<and> map_of [(''a'', VMap [(''k'', VStr ''0''), (''j'', VStr ''2'')])] ''a''
       = Some (VMap [(''k'', VStr ''0''), (''j'', VStr ''2'')])
   \<and> map (\<lambda>kv. isMap (snd kv)) [(''k'', VStr ''1'')] = [False]
   \<and> (\<exists>r. map_of (DeepMerge [(''a'', VMap [(''k'', VStr ''1'')])]
                     [(''a'', VMap [(''k'', VStr ''0''), (''j'', VStr ''2'')])]) ''a''
              = Some (VMap r)
          \<and> map_of r ''k'' = Some (VStr ''1'') \<and> map_of r ''j'' = Some (VStr ''2''))"
proof -
  have "\<exists>r. map_of (DeepMerge [(''a'', VMap [(''k'', VStr ''1'')])]
                     [(''a'', VMap [(''k'', VStr ''0''), (''j'', VStr ''2'')])]) ''a''
              = Some (VMap r)
          \<and> (\<forall>k. map_of r k = (case map_of [(''k'', VStr ''1'')] k of
                                  Some v \<Rightarrow> Some v
                                | None \<Rightarrow> map_of [(''k'', VStr ''0''), (''j'', VStr ''2'')] k))"
    using merge_new_wins [of "[(''a'', VMap [(''k'', VStr ''1'')])]" "''a''"
        "[(''k'', VStr ''1'')]" "[(''a'', VMap [(''k'', VStr ''0''), (''j'', VStr ''2'')])]"
        "[(''k'', VStr ''0''), (''j'', VStr ''2'')]"]
    by simp
  then obtain r where
    r: "map_of (DeepMerge [(''a'', VMap [(''k'', VStr ''1'')])]
                     [(''a'', VMap [(''k'', VStr ''0''), (''j'', VStr ''2'')])]) ''a''
              = Some (VMap r)"
    and look: "\<And>k. map_of r k = (case map_of [(''k'', VStr ''1'')] k of
                                  Some v \<Rightarrow> Some v
                                | None \<Rightarrow> map_of [(''k'', VStr ''0''), (''j'', VStr ''2'')] k)"
    by blast
  have "map_of r ''k'' = Some (VStr ''1'')" and "map_of r ''j'' = Some (VStr ''2'')"
    by (simp_all add: look)
  with r show ?thesis by auto
qed

section \<open>Flattening what was unflattened\<close>

lemma in_leaves_Tree:
  "ql \<in> set (leaves (Tree t))
     \<longleftrightarrow> (\<exists>k n q. (k, n) \<in> set t \<and> (q, snd ql) \<in> set (leaves n) \<and> fst ql = k # q)"
  by (cases ql) (force simp: below_def)

lemma put_keys: "fst ` set (put k v t) = insert k (fst ` set t)"
  by (induction t) auto

lemma put_distinct: "distinct (map fst t) \<Longrightarrow> distinct (map fst (put k v t))"
  by (induction t) (auto simp: put_keys)

lemma put_entries:
  "distinct (map fst t) \<Longrightarrow>
     (kk, nn) \<in> set (put k n t) \<longleftrightarrow> (kk = k \<and> nn = n) \<or> (kk \<noteq> k \<and> (kk, nn) \<in> set t)"
  by (induction t) (auto simp: rev_image_eqI)

lemma entry_unique:
  "distinct (map fst t) \<Longrightarrow> (k, n) \<in> set t \<Longrightarrow> (k, n') \<in> set t \<Longrightarrow> n = n'"
  by (meson eq_key_imp_eq_value)

lemma put_leaves:
  assumes "distinct (map fst t)"
  shows "set (leaves (Tree (put k n t)))
           = below k ` set (leaves n) \<union> {ql \<in> set (leaves (Tree t)). \<forall>q. fst ql \<noteq> k # q}"
proof (rule set_eqI)
  fix ql :: "string list \<times> 'a"
  obtain p l where ql: "ql = (p, l)" by (cases ql)
  have "ql \<in> set (leaves (Tree (put k n t)))
          \<longleftrightarrow> (\<exists>kk nn q. ((kk = k \<and> nn = n) \<or> (kk \<noteq> k \<and> (kk, nn) \<in> set t))
                         \<and> (q, l) \<in> set (leaves nn) \<and> p = kk # q)"
    unfolding in_leaves_Tree put_entries [OF assms] ql by simp
  also have "\<dots> \<longleftrightarrow> (\<exists>q. (q, l) \<in> set (leaves n) \<and> p = k # q)
                     \<or> (\<exists>kk nn q. kk \<noteq> k \<and> (kk, nn) \<in> set t \<and> (q, l) \<in> set (leaves nn)
                                   \<and> p = kk # q)"
    by blast
  also have "(\<exists>q. (q, l) \<in> set (leaves n) \<and> p = k # q) \<longleftrightarrow> ql \<in> below k ` set (leaves n)"
    unfolding ql by (force simp: below_def)
  also have "(\<exists>kk nn q. kk \<noteq> k \<and> (kk, nn) \<in> set t \<and> (q, l) \<in> set (leaves nn) \<and> p = kk # q)
               \<longleftrightarrow> ql \<in> {ql \<in> set (leaves (Tree t)). \<forall>q. fst ql \<noteq> k # q}"
    unfolding mem_Collect_eq in_leaves_Tree ql by auto
  finally show "ql \<in> set (leaves (Tree (put k n t)))
      \<longleftrightarrow> ql \<in> below k ` set (leaves n) \<union> {ql \<in> set (leaves (Tree t)). \<forall>q. fst ql \<noteq> k # q}"
    by simp
qed

lemma leaves_split:
  assumes "distinct (map fst t)" and "(k, n) \<in> set t"
  shows "set (leaves (Tree t))
           = below k ` set (leaves n) \<union> {ql \<in> set (leaves (Tree t)). \<forall>q. fst ql \<noteq> k # q}"
proof (rule set_eqI)
  fix ql :: "string list \<times> 'a"
  obtain p l where ql: "ql = (p, l)" by (cases ql)
  have only: "\<And>n'. (k, n') \<in> set t \<Longrightarrow> n' = n"
    using entry_unique [OF assms(1)] assms(2) by blast
  have "ql \<in> below k ` set (leaves n) \<longleftrightarrow> (\<exists>q. (q, l) \<in> set (leaves n) \<and> p = k # q)"
    unfolding ql by (force simp: below_def)
  moreover have "ql \<in> set (leaves (Tree t))
      \<longleftrightarrow> (\<exists>kk nn q. (kk, nn) \<in> set t \<and> (q, l) \<in> set (leaves nn) \<and> p = kk # q)"
    unfolding in_leaves_Tree ql by simp
  ultimately show "ql \<in> set (leaves (Tree t))
      \<longleftrightarrow> ql \<in> below k ` set (leaves n) \<union> {ql \<in> set (leaves (Tree t)). \<forall>q. fst ql \<noteq> k # q}"
    unfolding Un_iff mem_Collect_eq using only assms(2) unfolding ql fst_conv by blast
qed

lemma leaves_absent:
  assumes "\<And>n. (k, n) \<notin> set t"
  shows "{ql \<in> set (leaves (Tree t)). \<forall>q. fst ql \<noteq> k # q} = set (leaves (Tree t))"
proof (rule set_eqI)
  fix ql :: "string list \<times> 'a"
  show "ql \<in> {ql \<in> set (leaves (Tree t)). \<forall>q. fst ql \<noteq> k # q} \<longleftrightarrow> ql \<in> set (leaves (Tree t))"
    unfolding mem_Collect_eq in_leaves_Tree using assms by auto
qed


lemma okNode_TreeI:
  "distinct (map fst t) \<Longrightarrow> (\<And>k n. (k, n) \<in> set t \<Longrightarrow> okNode n \<and> leaves n \<noteq> [])
     \<Longrightarrow> okNode (Tree t)"
  by (simp del: leaves.simps) (metis prod.collapse)

lemma some_leaf: "leaves n \<noteq> [] \<Longrightarrow> \<exists>q l. (q, l) \<in> set (leaves n)"
  by (cases "leaves n") (simp, metis list.set_intros(1) surj_pair)

lemma has_leaf: "set (leaves n) = insert a B \<Longrightarrow> leaves n \<noteq> []"
  by (cases "leaves n") simp_all


lemma insertAt_leaves:
  "okNode (Tree t) \<Longrightarrow> segs \<noteq> [] \<Longrightarrow>
   (\<forall>ql \<in> set (leaves (Tree t)). \<not> isPrefix (fst ql) segs \<and> \<not> isPrefix segs (fst ql)) \<Longrightarrow>
   okNode (Tree (insertAt segs l t))
   \<and> set (leaves (Tree (insertAt segs l t))) = insert (segs, l) (set (leaves (Tree t)))"
proof (induction segs arbitrary: t)
  case Nil
  then show ?case by simp
next
  case (Cons s ss)
  note IH = Cons.IH
  from Cons.prems(1) have dist: "distinct (map fst t)"
    and kids: "\<And>k n. (k, n) \<in> set t \<Longrightarrow> okNode n \<and> leaves n \<noteq> []"
    by auto
  have free: "\<And>q l'. (q, l') \<in> set (leaves (Tree t))
                \<Longrightarrow> \<not> isPrefix q (s # ss) \<and> \<not> isPrefix (s # ss) q"
    using Cons.prems(3) by fastforce
  have no_leaf_at_s: "(s, Leaf l0) \<notin> set t" for l0
  proof
    assume "(s, Leaf l0) \<in> set t"
    then have "([s], l0) \<in> set (leaves (Tree t))"
      unfolding in_leaves_Tree by force
    with free [of "[s]" l0] show False by simp
  qed
  have ok_put: "okNode (Tree (put s n t))" if okn: "okNode n" and nel: "leaves n \<noteq> []" for n
  proof -
    have "okNode nn \<and> leaves nn \<noteq> []" if mem: "(kk, nn) \<in> set (put s n t)" for kk nn
    proof -
      from mem have "(kk = s \<and> nn = n) \<or> (kk \<noteq> s \<and> (kk, nn) \<in> set t)"
        by (simp only: put_entries [OF dist])
      then show ?thesis
      proof
        assume "kk = s \<and> nn = n"
        with okn nel show ?thesis by simp
      next
        assume "kk \<noteq> s \<and> (kk, nn) \<in> set t"
        then show ?thesis using kids by blast
      qed
    qed
    with put_distinct [OF dist] show ?thesis by (rule okNode_TreeI)
  qed
  show ?case
  proof (cases ss)
    case Nil
    have absent: "(s, n) \<notin> set t" for n
    proof
      assume in_t: "(s, n) \<in> set t"
      with kids have "leaves n \<noteq> []" by blast
      then obtain q l' where "(q, l') \<in> set (leaves n)"
        using some_leaf by blast
      with in_t have "(s # q, l') \<in> set (leaves (Tree t))"
        unfolding in_leaves_Tree by force
      with free [of "s # q" l'] Nil show False by simp
    qed
    have "set (leaves (Tree (put s (Leaf l) t))) = insert ([s], l) (set (leaves (Tree t)))"
      unfolding put_leaves [OF dist] leaves_absent [of s t, OF absent] by (simp add: below_def)
    moreover have "okNode (Tree (put s (Leaf l) t))" by (rule ok_put) simp_all
    ultimately show ?thesis using Nil by (simp del: leaves.simps okNode.simps)
  next
    case tail: (Cons v va)
    then have ss_ne: "ss \<noteq> []" by simp
    show ?thesis
    proof (cases "map_of t s")
      case None
      then have absent: "\<And>n. (s, n) \<notin> set t"
        by (metis dist map_of_eq_Some_iff option.distinct(1))
      have ih: "okNode (Tree (insertAt ss l []))
            \<and> set (leaves (Tree (insertAt ss l []))) = insert (ss, l) (set (leaves (Tree [])))"
      proof (rule IH)
        show "okNode (Tree [])" by simp
        show "ss \<noteq> []" by (rule ss_ne)
        show "\<forall>ql \<in> set (leaves (Tree [])). \<not> isPrefix (fst ql) ss \<and> \<not> isPrefix ss (fst ql)"
          by simp
      qed
      from ih have sub_ok: "okNode (Tree (insertAt ss l []))" by (rule conjunct1)
      have "set (leaves (Tree [])) = ({} :: (string list \<times> 'a) set)" by simp
      with ih have sub_leaves: "set (leaves (Tree (insertAt ss l []))) = {(ss, l)}"
        by (simp del: leaves.simps)
      have ne: "leaves (Tree (insertAt ss l [])) \<noteq> []"
        using sub_leaves by (rule has_leaf)
      have "set (leaves (Tree (put s (Tree (insertAt ss l [])) t)))
              = insert (s # ss, l) (set (leaves (Tree t)))"
        unfolding put_leaves [OF dist] leaves_absent [of s t, OF absent] sub_leaves
        by (simp add: below_def)
      moreover have "okNode (Tree (put s (Tree (insertAt ss l [])) t))"
        using sub_ok ne by (rule ok_put)
      ultimately show ?thesis using None tail by (simp del: leaves.simps okNode.simps)
    next
      case (Some n)
      then have in_t: "(s, n) \<in> set t" by (rule map_of_SomeD)
      with no_leaf_at_s obtain sub where n: "n = Tree sub" by (cases n) auto
      from kids [OF in_t] n have sub_inv: "okNode (Tree sub)" by simp
      have sub_free: "\<forall>ql \<in> set (leaves (Tree sub)). \<not> isPrefix (fst ql) ss \<and> \<not> isPrefix ss (fst ql)"
      proof
        fix ql assume "ql \<in> set (leaves (Tree sub))"
        then have "(s # fst ql, snd ql) \<in> set (leaves (Tree t))"
          using in_t n unfolding in_leaves_Tree [of _ t] by force
        from free [OF this] show "\<not> isPrefix (fst ql) ss \<and> \<not> isPrefix ss (fst ql)" by simp
      qed
      have ih: "okNode (Tree (insertAt ss l sub))
            \<and> set (leaves (Tree (insertAt ss l sub))) = insert (ss, l) (set (leaves (Tree sub)))"
        using sub_inv ss_ne sub_free by (rule IH)
      from ih have sub_ok: "okNode (Tree (insertAt ss l sub))" by (rule conjunct1)
      from ih have sub_leaves: "set (leaves (Tree (insertAt ss l sub)))
                           = insert (ss, l) (set (leaves (Tree sub)))"
        by (rule conjunct2)
      have ne: "leaves (Tree (insertAt ss l sub)) \<noteq> []"
        using sub_leaves by (rule has_leaf)
      have "set (leaves (Tree (put s (Tree (insertAt ss l sub)) t)))
              = insert (s # ss, l)
                  (below s ` set (leaves (Tree sub))
                   \<union> {ql \<in> set (leaves (Tree t)). \<forall>q. fst ql \<noteq> s # q})"
        unfolding put_leaves [OF dist] sub_leaves by (simp add: below_def)
      also have "below s ` set (leaves (Tree sub))
                   \<union> {ql \<in> set (leaves (Tree t)). \<forall>q. fst ql \<noteq> s # q} = set (leaves (Tree t))"
        using leaves_split [OF dist in_t] unfolding n by (rule sym)
      finally have "set (leaves (Tree (put s (Tree (insertAt ss l sub)) t)))
              = insert (s # ss, l) (set (leaves (Tree t)))" .
      moreover have "okNode (Tree (put s (Tree (insertAt ss l sub)) t))"
        using sub_ok ne by (rule ok_put)
      ultimately show ?thesis using Some n tail by (simp del: leaves.simps okNode.simps)
    qed
  qed
qed


lemma isPrefix_refl: "isPrefix a a"
  by (induction a) simp_all

lemma prefixFree_distinct: "prefixFree xs \<Longrightarrow> distinct xs"
  by (induction xs) (auto simp: isPrefix_refl)

lemma fold_insertAt:
  "okNode (Tree t) \<Longrightarrow> (\<forall>sl \<in> set ls. fst sl \<noteq> []) \<Longrightarrow> prefixFree (map fst ls) \<Longrightarrow>
   (\<forall>ql \<in> set (leaves (Tree t)). \<forall>sl \<in> set ls.
       \<not> isPrefix (fst ql) (fst sl) \<and> \<not> isPrefix (fst sl) (fst ql)) \<Longrightarrow>
   set (leaves (Tree (foldl (\<lambda>t sl. insertAt (fst sl) (snd sl) t) t ls)))
     = set (leaves (Tree t)) \<union> set ls"
proof (induction ls arbitrary: t)
  case Nil
  then show ?case by simp
next
  case (Cons a rest)
  let ?t = "insertAt (fst a) (snd a) t"
  have step: "okNode (Tree ?t) \<and> set (leaves (Tree ?t)) = insert (fst a, snd a) (set (leaves (Tree t)))"
  proof (rule insertAt_leaves)
    show "okNode (Tree t)" by (rule Cons.prems(1))
    show "fst a \<noteq> []" using Cons.prems(2) by simp
    show "\<forall>ql \<in> set (leaves (Tree t)). \<not> isPrefix (fst ql) (fst a) \<and> \<not> isPrefix (fst a) (fst ql)"
      using Cons.prems(4) by simp
  qed
  then have ok: "okNode (Tree ?t)" and lv: "set (leaves (Tree ?t)) = insert a (set (leaves (Tree t)))"
    by (simp_all del: leaves.simps okNode.simps)
  have "set (leaves (Tree (foldl (\<lambda>t sl. insertAt (fst sl) (snd sl) t) ?t rest)))
          = set (leaves (Tree ?t)) \<union> set rest"
  proof (rule Cons.IH [OF ok])
    show "\<forall>sl \<in> set rest. fst sl \<noteq> []" using Cons.prems(2) by simp
    show "prefixFree (map fst rest)" using Cons.prems(3) by simp
    show "\<forall>ql \<in> set (leaves (Tree ?t)). \<forall>sl \<in> set rest.
            \<not> isPrefix (fst ql) (fst sl) \<and> \<not> isPrefix (fst sl) (fst ql)"
      unfolding lv using Cons.prems(3,4) by (auto simp del: leaves.simps)
  qed
  then show ?case unfolding lv by (simp del: leaves.simps)
qed

lemma splitAux_nonempty: "splitAux sep cur s \<noteq> []"
  by (induction s arbitrary: cur) auto

lemma Split_nonempty: "Split s Delimiter \<noteq> []"
  by (simp add: Split_def Delimiter_def splitAux_nonempty)

lemma joinWith_Cons: "ys \<noteq> [] \<Longrightarrow> joinWith sep (x # ys) = x @ sep @ joinWith sep ys"
  by (cases ys) simp_all

lemma joinWith_splitAux: "joinWith ''/'' (splitAux ''/'' cur s) = rev cur @ s"
  by (induction s arbitrary: cur) (auto simp: joinWith_Cons splitAux_nonempty)

lemma joinWith_Split: "joinWith Delimiter (Split s Delimiter) = s"
  by (simp add: Split_def Delimiter_def joinWith_splitAux)

lemma joinWith_location:
  "joinWith Delimiter (location p e path)
     = (if e = [] then strip p path else strip e (strip p path))"
  by (simp add: location_def joinWith_Split)

lemma join_inject: "join p a = join p b \<Longrightarrow> a = b"
  by (auto simp: join_def split: if_splits)

lemma Unflatten_leaves:
  assumes "prefixFree (map (\<lambda>pl. location p e (fst pl)) f)"
  shows "set (leaves (Tree (Unflatten p f e))) = set (map (\<lambda>pl. (location p e (fst pl), snd pl)) f)"
proof -
  let ?ls = "map (\<lambda>pl. (location p e (fst pl), snd pl)) f"
  have "Unflatten p f e = foldl (\<lambda>t sl. insertAt (fst sl) (snd sl) t) [] ?ls"
    by (simp add: Unflatten_def foldl_map)
  moreover have "set (leaves (Tree (foldl (\<lambda>t sl. insertAt (fst sl) (snd sl) t) [] ?ls)))
      = set (leaves (Tree [])) \<union> set ?ls"
  proof (rule fold_insertAt)
    show "okNode (Tree [])" by simp
    show "\<forall>sl \<in> set ?ls. fst sl \<noteq> []" by (auto simp: location_def Split_nonempty)
    show "prefixFree (map fst ?ls)" using assms by (simp add: comp_def)
    show "\<forall>ql \<in> set (leaves (Tree [])). \<forall>sl \<in> set ?ls.
            \<not> isPrefix (fst ql) (fst sl) \<and> \<not> isPrefix (fst sl) (fst ql)"
      by simp
  qed
  ultimately show ?thesis by simp
qed

lemma flattenFrom_leaves:
  "flattenFrom prefix sofar n
     = map (\<lambda>ql. (join prefix (joinWith Delimiter (sofar @ fst ql)), snd ql)) (leaves n)"
proof (induction n arbitrary: sofar)
  case (Leaf l)
  then show ?case by simp
next
  case (Tree t)
  have "flattenFrom prefix (sofar @ [fst kn]) (snd kn)
          = map (\<lambda>ql. (join prefix (joinWith Delimiter (sofar @ fst ql)), snd ql))
              (map (below (fst kn)) (leaves (snd kn)))" if "kn \<in> set t" for kn
  proof -
    have "snd kn \<in> Basic_BNFs.snds kn" by (cases kn) simp
    with that Tree.IH have "flattenFrom prefix (sofar @ [fst kn]) (snd kn)
          = map (\<lambda>ql. (join prefix (joinWith Delimiter ((sofar @ [fst kn]) @ fst ql)), snd ql))
              (leaves (snd kn))"
      by blast
    then show ?thesis by (simp add: below_def comp_def)
  qed
  then show ?case by (simp add: map_concat comp_def cong: map_cong)
qed

lemma map_of_eq_by_set:
  assumes "set xs = set ys" and "distinct (map fst ys)"
  shows "map_of xs = map_of ys"
proof
  fix k
  show "map_of xs k = map_of ys k"
  proof (cases "map_of xs k")
    case None
    then have "k \<notin> fst ` set ys" using assms(1) by (simp add: map_of_eq_None_iff)
    then have "map_of ys k = None" by (simp add: map_of_eq_None_iff)
    with None show ?thesis by simp
  next
    case (Some v)
    then have "(k, v) \<in> set ys" using assms(1) by (auto dest: map_of_SomeD)
    with assms(2) Some show ?thesis by simp
  qed
qed

lemma under_join_strip: "liesUnder p path \<Longrightarrow> join p (strip p path) = path"
proof (cases "p = []")
  case True
  assume "liesUnder p path"
  with True show ?thesis
    by (simp add: liesUnder_def join_def strip_def TrimPrefix_def Delimiter_def)
next
  case False
  assume u: "liesUnder p path"
  show ?thesis
  proof (cases "path = p")
    case True
    with False show ?thesis
      by (simp add: join_def strip_def TrimPrefix_def Delimiter_def)
  next
    case ne: False
    with u False have tk: "take (length p + 1) path = p @ ''/''" and long: "length p + 1 < length path"
      by (simp_all add: liesUnder_def Delimiter_def)
    from tk have "take (length p) (take (length p + 1) path) = p" by simp
    then have tp: "take (length p) path = p" by (simp add: min_def)
    from tk have "drop (length p) (take (length p + 1) path) = ''/''" by simp
    then have td: "take 1 (drop (length p) path) = ''/''" by (simp add: drop_take)
    from long have rest: "drop (Suc (length p)) path \<noteq> []" by simp
    have "strip p path = drop (Suc (length p)) path"
      using tp td by (simp add: strip_def TrimPrefix_def Delimiter_def)
    moreover have "p @ ''/'' @ drop (Suc (length p)) path = path"
      using tk by (metis Suc_eq_plus1 append.assoc append_take_drop_id)
    ultimately show ?thesis using False rest by (simp add: join_def Delimiter_def)
  qed
qed

text \<open>
  C1, as amended. For every prefix, every engine path and every flat set whose locations
  below the prefix are free of prefixes, flattening the unflattened set under the same
  prefix gives the set back as a mapping, each path replaced by the prefix joined with what
  was left of it after stripping. When the engine path is empty and every path lies under
  the prefix, that is the set itself.
\<close>

theorem roundtrip:
  assumes "prefixFree (map (\<lambda>pl. location p e (fst pl)) f)"
  shows "map_of (Flatten (Unflatten p f e) p) = map_of (map (\<lambda>pl. (adjust p e (fst pl), snd pl)) f)
       \<and> (e = [] \<and> (\<forall>pl \<in> set f. liesUnder p (fst pl))
            \<longrightarrow> map_of (Flatten (Unflatten p f e) p) = map_of f)"
proof -
  let ?g = "\<lambda>ql :: string list \<times> 'a. (join p (joinWith Delimiter (fst ql)), snd ql)"
  let ?ls = "map (\<lambda>pl. (location p e (fst pl), snd pl)) f"
  let ?ys = "map (\<lambda>pl. (adjust p e (fst pl), snd pl)) f"
  have ys: "?ys = map ?g ?ls"
    by (simp add: adjust_def joinWith_location comp_def)
  have flat: "Flatten (Unflatten p f e) p = map ?g (leaves (Tree (Unflatten p f e)))"
    unfolding Flatten_def flattenFrom_leaves by simp
  have sets: "set (Flatten (Unflatten p f e) p) = set ?ys"
    unfolding flat ys set_map Unflatten_leaves [OF assms] ..
  have "distinct (map (\<lambda>pl. location p e (fst pl)) f)"
    using assms by (rule prefixFree_distinct)
  moreover have "inj_on (\<lambda>loc. join p (joinWith Delimiter loc)) (set (map (\<lambda>pl. location p e (fst pl)) f))"
  proof (rule inj_onI)
    fix a b
    assume a: "a \<in> set (map (\<lambda>pl. location p e (fst pl)) f)"
      and b: "b \<in> set (map (\<lambda>pl. location p e (fst pl)) f)"
      and eq: "join p (joinWith Delimiter a) = join p (joinWith Delimiter b)"
    from a obtain ra where ra: "a = Split ra Delimiter" by (auto simp: location_def)
    from b obtain rb where rb: "b = Split rb Delimiter" by (auto simp: location_def)
    from eq have "joinWith Delimiter a = joinWith Delimiter b" by (rule join_inject)
    then have "ra = rb" by (simp add: ra rb joinWith_Split)
    then show "a = b" by (simp add: ra rb)
  qed
  ultimately have "distinct (map (\<lambda>loc. join p (joinWith Delimiter loc)) (map (\<lambda>pl. location p e (fst pl)) f))"
    by (simp only: distinct_map)
  then have dist: "distinct (map fst ?ys)"
    by (simp add: ys comp_def)
  from sets dist have main: "map_of (Flatten (Unflatten p f e) p) = map_of ?ys"
    by (rule map_of_eq_by_set)
  have "?ys = f" if "e = [] \<and> (\<forall>pl \<in> set f. liesUnder p (fst pl))"
  proof -
    have "map (\<lambda>pl. (adjust p e (fst pl), snd pl)) f = map (\<lambda>pl. pl) f"
      using that by (intro map_cong [OF refl]) (simp add: adjust_def under_join_strip)
    then show ?thesis by simp
  qed
  note ident = this
  show ?thesis
  proof (intro conjI impI)
    show "map_of (Flatten (Unflatten p f e) p) = map_of ?ys" by (rule main)
  next
    assume h: "e = [] \<and> (\<forall>pl \<in> set f. liesUnder p (fst pl))"
    from ident [OF h] main show "map_of (Flatten (Unflatten p f e) p) = map_of f" by simp
  qed
qed


theorem roundtrip_witness:
  "prefixFree (map (\<lambda>pl. location ''secret'' [] (fst pl))
       [(''secret/app/db'', [(''user'', VStr ''alice'')]), (''secret/app/web'', []),
        (''secret/x'', [(''k'', VStr ''v'')])])
   \<and> liesUnder ''secret'' ''secret/app/db'' \<and> liesUnder ''secret'' ''secret/app/web''
   \<and> liesUnder ''secret'' ''secret/x''
   \<and> map_of (Flatten (Unflatten ''secret''
         [(''secret/app/db'', [(''user'', VStr ''alice'')]), (''secret/app/web'', []),
          (''secret/x'', [(''k'', VStr ''v'')])] []) ''secret'')
       = map_of [(''secret/app/db'', [(''user'', VStr ''alice'')]), (''secret/app/web'', []),
                 (''secret/x'', [(''k'', VStr ''v'')])]"
proof -
  let ?f = "[(''secret/app/db'', [(''user'', VStr ''alice'')]), (''secret/app/web'', []),
             (''secret/x'', [(''k'', VStr ''v'')])]"
  have free: "prefixFree (map (\<lambda>pl. location ''secret'' [] (fst pl)) ?f)"
    by (simp add: location_def strip_def TrimPrefix_def Split_def Delimiter_def)
  have below: "[] = ([] :: string) \<and> (\<forall>pl \<in> set ?f. liesUnder ''secret'' (fst pl))"
    by (simp add: liesUnder_def Delimiter_def)
  from roundtrip [OF free] below
  have "map_of (Flatten (Unflatten ''secret'' ?f []) ''secret'') = map_of ?f"
    by blast
  with free show ?thesis by (simp add: liesUnder_def Delimiter_def)
qed

text \<open>
  C1 as stated fails for a path that does not lie under the prefix: the set with the one
  path \<open>x\<close>, unflattened and flattened under the prefix \<open>a\<close>, comes back with the path
  \<open>a/x\<close>, and has nothing under \<open>x\<close>.
\<close>

theorem roundtrip_other_prefix:
  "Flatten (Unflatten ''a'' [(''x'', [(''k'', VStr ''v'')])] []) ''a''
     = [(''a/x'', [(''k'', VStr ''v'')])]
   \<and> map_of [(''a/x'', [(''k'', VStr ''v'')])] ''x'' = None
   \<and> map_of [(''x'', [(''k'', VStr ''v'')])] ''x'' = Some [(''k'', VStr ''v'')]"
  by (simp add: Flatten_def Unflatten_def location_def strip_def TrimPrefix_def Split_def
      Delimiter_def join_def)

end
